theory Spec2Isabelle
  imports Main "HOL-Library.Sublist"
begin

unbundle bit_operations_syntax

section \<open>Python values used by the sequencer and the byte-code modules\<close>

text \<open>
  Python integers are unbounded: they are modelled as \<open>int\<close>, on which \<open>AND\<close>, \<open>OR\<close>,
  \<open>push_bit\<close> (\<^verbatim>\<open><<\<close>) and \<open>drop_bit\<close> (\<^verbatim>\<open>>>\<close>) are the two's-complement
  operations Python has.  Every \<^verbatim>\<open>raise\<close> of the source is a value \<open>Inl e\<close> of the result
  type \<open>error + 'a\<close>.  The \<^verbatim>\<open>print\<close> statements of \<^verbatim>\<open>Mode.get_code\<close> and
  \<^verbatim>\<open>State.get_code\<close> write to standard output only and are left out.
\<close>

datatype error =
    ValueError string
  | KeyError string
  | TypeError
  | StructError

text \<open>
  A Python \<^verbatim>\<open>dict\<close> is a list of (key, value) items with distinct keys.  The order of the
  list is the order in which \<^verbatim>\<open>keys()\<close> enumerates the dictionary; a new key is appended and an
  existing key is overwritten in place.
\<close>

type_synonym ('k, 'v) dict = "('k \<times> 'v) list"

fun dict_set :: "('k, 'v) dict \<Rightarrow> 'k \<Rightarrow> 'v \<Rightarrow> ('k, 'v) dict" where
  "dict_set [] k v = [(k, v)]"
| "dict_set ((k', v') # d) k v = (if k' = k then (k, v) # d else (k', v') # dict_set d k v)"

definition dict_get :: "(string, 'v) dict \<Rightarrow> string \<Rightarrow> error + 'v" where
  "dict_get d k = (case map_of d k of None \<Rightarrow> Inl (KeyError k) | Some v \<Rightarrow> Inr v)"

subsection \<open>\<^verbatim>\<open>str\<close> and \<^verbatim>\<open>join\<close>\<close>

text \<open>
  The decimal digits of a non-negative integer, most significant first; \<^verbatim>\<open>str\<close> of a
  negative integer puts a minus sign before the digits of its absolute value.
\<close>

definition digit_char :: "int \<Rightarrow> char" where
  "digit_char d = ''0123456789'' ! nat d"

function decimal :: "int \<Rightarrow> string" where
  "decimal n = (if n < 10 then [digit_char n] else decimal (n div 10) @ [digit_char (n mod 10)])"
  by pat_completeness auto
termination
  by (relation "measure nat") auto

declare decimal.simps [simp del]

definition str_int :: "int \<Rightarrow> string" where
  "str_int i = (if i < 0 then CHR ''-'' # decimal (- i) else decimal i)"

definition str_nat :: "nat \<Rightarrow> string" where
  "str_nat n = str_int (int n)"

text \<open>\<^verbatim>\<open>str\<close> of an optional name: \<^verbatim>\<open>str(None)\<close> is \<^verbatim>\<open>'None'\<close>.\<close>

definition str_opt :: "string option \<Rightarrow> string" where
  "str_opt n = (case n of None \<Rightarrow> ''None'' | Some s \<Rightarrow> s)"

fun join :: "string \<Rightarrow> string list \<Rightarrow> string" where
  "join sep [] = []"
| "join sep [x] = x"
| "join sep (x # y # ys) = x @ sep @ join sep (y # ys)"

text \<open>The truth value of an optional string: \<^verbatim>\<open>None\<close> and \<^verbatim>\<open>''\<close> are false.\<close>

definition truthy_name :: "string option \<Rightarrow> bool" where
  "truthy_name n = (case n of None \<Rightarrow> False | Some s \<Rightarrow> s \<noteq> [])"

section \<open>log.py: the logging context\<close>

text \<open>
  A \<^verbatim>\<open>_Log\<close> holds three callbacks and a verbosity (5 in a new context).  The model
  records, per channel, the messages handed to the callback, in order.
\<close>

record Log =
  verbosity :: int
  info_out :: "string list"
  warning_out :: "string list"
  error_out :: "string list"

definition new_context :: Log where
  "new_context = \<lparr>verbosity = 5, info_out = [], warning_out = [], error_out = []\<rparr>"

definition log_warning :: "Log \<Rightarrow> string \<Rightarrow> Log" where
  "log_warning lg message =
     (if 0 < verbosity lg then lg\<lparr>warning_out := warning_out lg @ [message]\<rparr> else lg)"

definition log_error :: "Log \<Rightarrow> string \<Rightarrow> Log" where
  "log_error lg message =
     (if 0 < verbosity lg then lg\<lparr>error_out := error_out lg @ [message]\<rparr> else lg)"

section \<open>sequencer.py: State\<close>

record State =
  data :: int
  hold_time :: int

definition max_hold_time :: int where
  "max_hold_time = 2 ^ 24 - 1"

definition max_states_length :: nat where
  "max_states_length = 64"

definition State_init :: "int \<Rightarrow> int \<Rightarrow> error + State" where
  "State_init d t =
     (if t < 0 \<or> t > max_hold_time
      then Inl (ValueError (''hold_time ('' @ str_int t @ '') is out of range [0...''
                  @ str_int max_hold_time @ ''].''))
      else Inr \<lparr>data = d, hold_time = t\<rparr>)"

text \<open>\<^verbatim>\<open>(self.data >> address) & 0x01\<close>; Python raises on a negative shift count.\<close>

definition get_value_of_address :: "State \<Rightarrow> int \<Rightarrow> error + int" where
  "get_value_of_address s address =
     (if address < 0 then Inl (ValueError ''negative shift count'')
      else Inr (drop_bit (nat address) (data s) AND 1))"

definition State_get_code :: "State \<Rightarrow> int" where
  "State_get_code s = push_bit 24 (data s) OR hold_time s"

subsection \<open>\<^verbatim>\<open>State.from_bits\<close>\<close>

text \<open>
  The entries of \<^verbatim>\<open>data_bits\<close> are documented as \<^verbatim>\<open>str/int/bool\<close>; \<open>py_bool\<close> is
  Python's \<^verbatim>\<open>bool()\<close> on these (and on \<^verbatim>\<open>None\<close>).
\<close>

datatype pyval = PyInt int | PyStr string | PyBool bool | PyNone

fun py_bool :: "pyval \<Rightarrow> bool" where
  "py_bool (PyInt i) = (i \<noteq> 0)"
| "py_bool (PyStr s) = (s \<noteq> [])"
| "py_bool (PyBool b) = b"
| "py_bool PyNone = False"

definition int_of_bool :: "bool \<Rightarrow> int" where
  "int_of_bool b = (if b then 1 else 0)"

text \<open>The loop \<^verbatim>\<open>for ii in range(len(bits)): data = data | (bits[ii] << ii)\<close>, from index \<open>ii\<close> on.\<close>

fun or_bits :: "int list \<Rightarrow> nat \<Rightarrow> int \<Rightarrow> int" where
  "or_bits [] ii d = d"
| "or_bits (b # bs) ii d = or_bits bs (Suc ii) (d OR push_bit ii b)"

definition from_bits :: "Log \<Rightarrow> pyval list \<Rightarrow> int \<Rightarrow> Log \<times> (error + State)" where
  "from_bits lg data_bits t =
     (let bits = map (\<lambda>bit. int_of_bool (py_bool bit)) data_bits in
      if length bits > max_states_length
      then (lg, Inl (ValueError (''Too many bits ('' @ str_nat (length bits)
                  @ '') for a sequencer state (max is '' @ str_nat max_states_length @ '').'')))
      else
        let lg' = (if length bits < max_states_length
                   then log_warning lg (''There are less bits than the expected in a state (''
                          @ str_nat (length bits) @ ''/'' @ str_nat max_states_length
                          @ ''), will fill MSBs with 0s.'')
                   else lg)
        in (lg', State_init (or_bits bits 0 0) t))"

section \<open>sequencer.py: Mode\<close>

text \<open>
  The attributes \<^verbatim>\<open>parent_mode_name\<close> and \<^verbatim>\<open>nested_loops\<close> exist on a Mode object only
  when the constructor was given a parent; they are set together, so they are one optional
  field, and \<^verbatim>\<open>is_nested\<close> (\<^verbatim>\<open>hasattr(self, 'parent_mode_name')\<close>) asks whether it is there.
\<close>

record Mode =
  name :: string
  n_loops :: int
  next_mode_name :: "string option"
  nesting :: "(string \<times> int) option"
  states :: "State list"

definition invalid_mode :: int where
  "invalid_mode = 2 ^ 10 - 1"

definition max_n_loops :: int where
  "max_n_loops = 2 ^ 16 - 1"

definition max_n_loops_nested :: int where
  "max_n_loops_nested = 2 ^ 16 - 1"

definition max_n_states :: nat where
  "max_n_states = 2 ^ 10 - 1"

definition is_nested :: "Mode \<Rightarrow> bool" where
  "is_nested m = (nesting m \<noteq> None)"

definition parent_mode_name :: "Mode \<Rightarrow> string option" where
  "parent_mode_name m = map_option fst (nesting m)"

text \<open>
  \<^verbatim>\<open>Mode.__init__(name, n_loops, next_mode_name=None, parent_mode_name=None, nested_loops=None)\<close>.
  The only test on \<^verbatim>\<open>n_loops\<close> is \<^verbatim>\<open>n_loops > self._max_n_loops\<close>.
\<close>

definition Mode_init ::
  "string \<Rightarrow> int \<Rightarrow> string option \<Rightarrow> string option \<Rightarrow> int option \<Rightarrow> error + Mode" where
  "Mode_init nm loops next_name parent_name nested =
     (if loops > max_n_loops
      then Inl (ValueError (''n_loops ('' @ str_int loops @ '') is out of range [0...''
                  @ str_int max_n_loops @ ''].''))
      else if truthy_name parent_name
      then (case nested of
              None \<Rightarrow> Inl (ValueError
                ''Must give a value to nested_loops if parent_mode_name is specified.'')
            | Some nl \<Rightarrow>
                if nl = 0
                then Inl (ValueError
                  ''Must give a value to nested_loops if parent_mode_name is specified.'')
                else if nl > max_n_loops_nested
                then Inl (ValueError (''nested_loops ('' @ str_int nl
                            @ '') is out of range [0...'' @ str_int max_n_loops_nested @ ''].''))
                else Inr \<lparr>name = nm, n_loops = loops, next_mode_name = next_name,
                          nesting = Some (str_opt parent_name, nl), states = []\<rparr>)
      else Inr \<lparr>name = nm, n_loops = loops, next_mode_name = next_name,
                nesting = None, states = []\<rparr>)"

definition add_state :: "Mode \<Rightarrow> State \<Rightarrow> error + Mode" where
  "add_state m s =
     (if length (states m) \<ge> max_n_states
      then Inl (ValueError (''Number of states per mode limit ('' @ str_nat max_n_states
                  @ '') reached.''))
      else Inr (m\<lparr>states := states m @ [s]\<rparr>))"

fun add_states :: "Mode \<Rightarrow> State list \<Rightarrow> error + Mode" where
  "add_states m [] = Inr m"
| "add_states m (s # ss) =
     (case add_state m s of Inl e \<Rightarrow> Inl e | Inr m' \<Rightarrow> add_states m' ss)"

text \<open>
  \<^verbatim>\<open>Mode.get_code(address_cache)\<close>.  The next address is looked up only when
  \<^verbatim>\<open>self.next_mode_name\<close> is truthy, the parent address only for a nested mode; a name that
  is not in the cache raises \<^verbatim>\<open>KeyError\<close>.
\<close>

definition Mode_get_code :: "Mode \<Rightarrow> (string, int) dict \<Rightarrow> error + int" where
  "Mode_get_code m address_cache =
     (let nested_flag = (if is_nested m then 1 else 0);
          nested_loops = (case nesting m of None \<Rightarrow> 0 | Some (p, nl) \<Rightarrow> nl)
      in case (if truthy_name (next_mode_name m)
               then dict_get address_cache (str_opt (next_mode_name m))
               else Inr invalid_mode) of
           Inl e \<Rightarrow> Inl e
         | Inr next_address \<Rightarrow>
            (case (case nesting m of
                     None \<Rightarrow> Inr invalid_mode
                   | Some (p, nl) \<Rightarrow> dict_get address_cache p) of
               Inl e \<Rightarrow> Inl e
             | Inr parent_address \<Rightarrow>
                 Inr (0 OR parent_address
                        OR push_bit 16 next_address
                        OR push_bit 32 nested_flag
                        OR push_bit 40 nested_loops
                        OR push_bit 56 (n_loops m)
                        OR push_bit 72 (int (length (states m)))
                        OR push_bit 88 0x80)))"

subsection \<open>The formatters \<^verbatim>\<open>State.format_code\<close> and \<^verbatim>\<open>Mode.format_code\<close>\<close>

text \<open>
  \<^verbatim>\<open>State.format_code(code, labels=None)\<close> extracts
  \<^verbatim>\<open>data = (code & 0x7FFFFFFF80000000) >> 31\<close> and \<^verbatim>\<open>time = code & 0xFFFFFF\<close> and prints 32
  bits of \<^verbatim>\<open>data\<close>.  With a dictionary of labels, a bit is printed under the first key that
  has its index and dropped when there is none; with the empty dictionary the list handed to
  \<^verbatim>\<open>' '.join\<close> holds \<^verbatim>\<open>None\<close> entries, which raises \<^verbatim>\<open>TypeError\<close>.
\<close>

definition State_format_data :: "int \<Rightarrow> int" where
  "State_format_data code = drop_bit 31 (code AND 0x7FFFFFFF80000000)"

definition State_format_time :: "int \<Rightarrow> int" where
  "State_format_time code = code AND 0xFFFFFF"

definition State_format_code :: "int \<Rightarrow> (string, int) dict option \<Rightarrow> error + string" where
  "State_format_code code labels =
     (let d = State_format_data code;
          time = State_format_time code;
          bit_str = (\<lambda>ii. str_int (drop_bit ii d AND 1))
      in case labels of
           None \<Rightarrow>
             Inr (join '' '' (map bit_str [0..<32] @ ['', hold for: '' @ str_int time]))
         | Some ls \<Rightarrow>
             if ls = [] then Inl TypeError
             else Inr (join '' ''
               ((''---- hold for: '' @ str_int time @ '' ----- '' @ [CHR 0x0A])
                # concat (map (\<lambda>ii. case find (\<lambda>(k, v). v = int ii) ls of
                                       None \<Rightarrow> []
                                     | Some (k, v) \<Rightarrow> [k @ '':'' @ bit_str ii @ [CHR 0x0A]])
                          [0..<32]))))"

definition conform_str :: "string \<Rightarrow> int \<Rightarrow> string" where
  "conform_str s len = replicate (nat (max 0 (len - int (length s)))) CHR '' '' @ s"

text \<open>
  \<^verbatim>\<open>Mode.format_code(code, addresses=None)\<close>.  With a non-empty dictionary the last key
  (in enumeration order) whose address matches gives the label.
\<close>

definition Mode_format_code :: "int \<Rightarrow> (string, int) dict option \<Rightarrow> string" where
  "Mode_format_code code addresses =
     (let parent_address = code AND 0xFFFF;
          next_address = drop_bit 16 code AND 0xFFFF;
          nested_flag = drop_bit 32 code AND 0xFF;
          nested_loops = drop_bit 40 code AND 0xFFFF;
          loops = drop_bit 56 code AND 0xFFFF;
          n_states = drop_bit 72 code AND 0xFFFF;
          min_str_len = 3;
          ads = (case addresses of None \<Rightarrow> [] | Some a \<Rightarrow> a)
      in if ads \<noteq> []
         then
           let min_str_len_label = fold (\<lambda>(k, v) l. max l (int (length k))) ads min_str_len;
               parent_label = fold (\<lambda>(k, v) l. if v = parent_address then k else l) ads ''<unknown>'';
               next_label = fold (\<lambda>(k, v) l. if v = next_address then k else l) ads ''<unknown>''
           in join '' | ''
                [conform_str (''n_states:'' @ str_int n_states) min_str_len,
                 conform_str (''n_loops:'' @ str_int loops) min_str_len,
                 conform_str (''nested_loops:'' @ str_int nested_loops) min_str_len,
                 conform_str (''is_nested:'' @ str_int nested_flag) min_str_len,
                 conform_str (conform_str (''next_label:'' @ next_label) min_str_len)
                   min_str_len_label,
                 conform_str (conform_str (''parent_label:'' @ parent_label) min_str_len)
                   min_str_len_label]
         else
           join '' | ''
             [conform_str (''n_states:'' @ str_int n_states) min_str_len,
              conform_str (''n_loops:'' @ str_int loops) min_str_len,
              conform_str (''nested_loops:'' @ str_int nested_loops) min_str_len,
              conform_str (''is_nested:'' @ str_int nested_flag) min_str_len,
              conform_str (''next_address:'' @ str_int next_address) min_str_len,
              conform_str (''parent_address:'' @ str_int parent_address) min_str_len])"

section \<open>sequencer.py: ProgramBuilder and Program\<close>

record ProgramBuilder =
  modes :: "Mode list"
  log :: Log

text \<open>The logging context of a Program is stored and not used by the functions below.\<close>

record Program =
  codes :: "int list"
  address_map :: "(string, int) dict"
  prog_modes :: "Mode list"

definition max_n_lines :: int where
  "max_n_lines = 2 ^ 10 - 1"

definition ProgramBuilder_init :: "Log \<Rightarrow> ProgramBuilder" where
  "ProgramBuilder_init lg = \<lparr>modes = [], log = lg\<rparr>"

definition mode_names :: "ProgramBuilder \<Rightarrow> string list" where
  "mode_names b = map name (modes b)"

definition add_mode :: "ProgramBuilder \<Rightarrow> Mode \<Rightarrow> error + ProgramBuilder" where
  "add_mode b mode =
     (if name mode \<in> set (mode_names b)
      then Inl (ValueError (''There is already a mode named '' @ name mode))
      else Inr (b\<lparr>modes := modes b @ [mode]\<rparr>))"

text \<open>The calls \<^verbatim>\<open>b.add_mode(m0); b.add_mode(m1); ...\<close> in this order; the first error ends them.\<close>

fun add_mode_seq :: "ProgramBuilder \<Rightarrow> Mode list \<Rightarrow> error + ProgramBuilder" where
  "add_mode_seq b [] = Inr b"
| "add_mode_seq b (m # ms) =
     (case add_mode b m of Inl e \<Rightarrow> Inl e | Inr b' \<Rightarrow> add_mode_seq b' ms)"

text \<open>
  \<^verbatim>\<open>ProgramBuilder.get_mode(name)\<close>.  \<^verbatim>\<open>build\<close> calls it with \<^verbatim>\<open>mode.next_mode_name\<close>,
  which may be \<^verbatim>\<open>None\<close>; a mode's name is a string and never equal to \<^verbatim>\<open>None\<close>.
\<close>

fun get_mode :: "Mode list \<Rightarrow> string option \<Rightarrow> error + Mode" where
  "get_mode [] n = Inl (ValueError (''There is no mode named: '' @ str_opt n))"
| "get_mode (m # ms) n = (if Some (name m) = n then Inr m else get_mode ms n)"

text \<open>The first loop of \<^verbatim>\<open>build\<close>: the address cache.\<close>

fun address_pass :: "Mode list \<Rightarrow> int \<Rightarrow> (string, int) dict \<Rightarrow> (string, int) dict" where
  "address_pass [] current_address address_cache = address_cache"
| "address_pass (mode # ms) current_address address_cache =
     address_pass ms (current_address + (int (length (states mode)) + 1))
       (dict_set address_cache (name mode) current_address)"

text \<open>
  The second loop of \<^verbatim>\<open>build\<close>: the consistency checks of one mode.  Both \<^verbatim>\<open>try\<close> blocks
  catch every exception; each failure sets the flag and sends one message to the builder's log.
  The three messages are named here.
\<close>

definition next_mode_issue :: "Mode \<Rightarrow> string" where
  "next_mode_issue mode =
     ''Next mode '' @ str_opt (next_mode_name mode) @ '' for mode '' @ name mode
       @ '' does not exist.''"

text \<open>
  In the source the message for an unknown parent is written
  \<^verbatim>\<open>'Parent mode '' + str(mode.parent_mode_name) + '' for mode ' + str(mode.name) + ...\<close>:
  the doubled quotes end one string literal and begin the next, so the text
  \<^verbatim>\<open> + str(mode.parent_mode_name) + \<close> is part of the message and the parent's name is not.
\<close>

definition parent_mode_issue :: "Mode \<Rightarrow> string" where
  "parent_mode_issue mode =
     ''Parent mode '' @ '' + str(mode.parent_mode_name) + '' @ '' for mode '' @ name mode
       @ '' does not exist.''"

definition double_nested_issue :: "Mode \<Rightarrow> Mode \<Rightarrow> string" where
  "double_nested_issue mode parent =
     ''Double nested modes detected: '' @ name mode @ '' in '' @ name parent @ '' in ''
       @ str_opt (parent_mode_name parent) @ ''.''"

definition check_mode :: "Mode list \<Rightarrow> Mode \<Rightarrow> bool \<times> Log \<Rightarrow> bool \<times> Log" where
  "check_mode all mode st =
     (let st1 = (case get_mode all (next_mode_name mode) of
                   Inl e \<Rightarrow> (True, log_error (snd st) (next_mode_issue mode))
                 | Inr m' \<Rightarrow> st)
      in if is_nested mode
         then (case get_mode all (parent_mode_name mode) of
                 Inl e \<Rightarrow> (True, log_error (snd st1) (parent_mode_issue mode))
               | Inr parent \<Rightarrow>
                   if is_nested parent
                   then (True, log_error (snd st1) (double_nested_issue mode parent))
                   else st1)
         else st1)"

fun check_modes :: "Mode list \<Rightarrow> Mode list \<Rightarrow> bool \<times> Log \<Rightarrow> bool \<times> Log" where
  "check_modes all [] st = st"
| "check_modes all (mode # ms) st = check_modes all ms (check_mode all mode st)"

text \<open>The messages that the checks of one mode send to a log that prints them.\<close>

definition mode_issues :: "Mode list \<Rightarrow> Mode \<Rightarrow> string list" where
  "mode_issues all mode = error_out (snd (check_mode all mode (False, new_context)))"

text \<open>The third loop: one header word per mode, followed by one word per state.\<close>

fun encode_modes :: "Mode list \<Rightarrow> (string, int) dict \<Rightarrow> int list \<Rightarrow> error + int list" where
  "encode_modes [] address_cache cs = Inr cs"
| "encode_modes (mode # ms) address_cache cs =
     (case Mode_get_code mode address_cache of
        Inl e \<Rightarrow> Inl e
      | Inr c \<Rightarrow> encode_modes ms address_cache (cs @ [c] @ map State_get_code (states mode)))"

text \<open>
  \<^verbatim>\<open>ProgramBuilder.build()\<close> returns the builder's log after the call and either the error
  raised or the Program.
\<close>

definition build :: "ProgramBuilder \<Rightarrow> Log \<times> (error + Program)" where
  "build b =
     (let address_cache = address_pass (modes b) 0 [];
          st = check_modes (modes b) (modes b) (False, log b)
      in if fst st
         then (snd st, Inl (ValueError
                 ''Compilation stopped because of consistency errors. Check log.''))
         else
           (case encode_modes (modes b) address_cache [] of
              Inl e \<Rightarrow> (snd st, Inl e)
            | Inr cs \<Rightarrow>
                if int (length cs) > max_n_lines
                then (snd st, Inl (ValueError
                        (''Compilation stopped because of maximum memory lines restriction (''
                           @ str_nat (length cs) @ ''/'' @ str_int max_n_lines @ '')'')))
                else (snd st, Inr \<lparr>codes = cs, address_map = address_cache,
                                   prog_modes = modes b\<rparr>)))"

definition get_address :: "Program \<Rightarrow> string \<Rightarrow> error + int" where
  "get_address p mode = dict_get (address_map p) mode"

text \<open>\<^verbatim>\<open>Program.as_str(labels=None)\<close>: the test that picks the formatter is \<^verbatim>\<open>(c >> 63) == 1\<close>.\<close>

fun as_str_lines ::
  "(string, int) dict \<Rightarrow> (string, int) dict option \<Rightarrow> int list \<Rightarrow> string list
     \<Rightarrow> error + string list" where
  "as_str_lines amap labels [] result = Inr result"
| "as_str_lines amap labels (c # cs) result =
     (if drop_bit 63 c = 1
      then as_str_lines amap labels cs (result @ [Mode_format_code c (Some amap)])
      else (case State_format_code c labels of
              Inl e \<Rightarrow> Inl e
            | Inr s \<Rightarrow> as_str_lines amap labels cs (result @ [s])))"

definition as_str :: "Program \<Rightarrow> (string, int) dict option \<Rightarrow> error + string" where
  "as_str p labels =
     (case as_str_lines (address_map p) labels (codes p) [] of
        Inl e \<Rightarrow> Inl e
      | Inr result \<Rightarrow> Inr (join [CHR 0x0A] result))"

section \<open>sequencer.py: Labels\<close>

record Labels =
  labels :: "(string, int) dict"

text \<open>
  The scan of \<^verbatim>\<open>Labels.__init__\<close>: \<^verbatim>\<open>for k in labels.keys(): v = labels[k]; ...\<close>.  The
  dictionary is enumerated item by item, \<open>v\<close> being the value stored under \<open>k\<close>.
\<close>

fun Labels_scan ::
  "(string, int) dict \<Rightarrow> int list \<Rightarrow> string list \<Rightarrow> string list" where
  "Labels_scan [] seen_values repeated_keys = repeated_keys"
| "Labels_scan ((k, v) # kvs) seen_values repeated_keys =
     (if v \<in> set seen_values
      then Labels_scan kvs seen_values (repeated_keys @ [k])
      else Labels_scan kvs (seen_values @ [v]) repeated_keys)"

definition Labels_init :: "(string, int) dict \<Rightarrow> error + Labels" where
  "Labels_init ls =
     (let repeated_keys = Labels_scan ls [] [] in
      if length repeated_keys > 0
      then Inl (ValueError (''There are repeated indexes for labels: ''
             @ join '','' (map (\<lambda>k. k @ '':'' @ (case map_of ls k of
                                                       None \<Rightarrow> ''None''
                                                     | Some v \<Rightarrow> str_int v))
                            repeated_keys)))
      else Inr \<lparr>labels = ls\<rparr>)"

section \<open>binary.py: ByteCode.int_to_byte_list\<close>

text \<open>
  \<^verbatim>\<open>self.endianess\<close> is a format character of Python's \<^verbatim>\<open>struct\<close>: \<^verbatim>\<open>'<'\<close> (the default)
  is little-endian, \<^verbatim>\<open>'>'\<close> is big-endian.  \<^verbatim>\<open>struct.pack(endianess + 'I', n)\<close> gives the
  four bytes of an unsigned \<open>n\<close> below \<open>2^32\<close>, \<^verbatim>\<open>'i'\<close> those of the two's complement of a
  signed \<open>n\<close>, and raises \<^verbatim>\<open>struct.error\<close> when \<open>n\<close> is out of range.  \<^verbatim>\<open>six.byte2int\<close>
  turns each byte into an int.
\<close>

datatype endianess = Little | Big

fun le_bytes :: "nat \<Rightarrow> int \<Rightarrow> int list" where
  "le_bytes 0 n = []"
| "le_bytes (Suc k) n = (n mod 256) # le_bytes k (n div 256)"

definition struct_pack :: "endianess \<Rightarrow> bool \<Rightarrow> int \<Rightarrow> error + int list" where
  "struct_pack e signed n =
     (if (if signed then - (2 ^ 31) \<le> n \<and> n < 2 ^ 31 else 0 \<le> n \<and> n < 2 ^ 32)
      then Inr (case e of Little \<Rightarrow> le_bytes 4 (n mod 2 ^ 32)
                        | Big \<Rightarrow> rev (le_bytes 4 (n mod 2 ^ 32)))
      else Inl StructError)"

definition int_to_byte_list :: "endianess \<Rightarrow> int \<Rightarrow> nat \<Rightarrow> bool \<Rightarrow> error + int list" where
  "int_to_byte_list e number n_bytes signed =
     (if n_bytes = 4 then struct_pack e signed number
      else if n_bytes = 8
      then
        let number_h = drop_bit 32 (number AND 0xFFFFFFFF00000000);
            number_l = number AND 0x00000000FFFFFFFF
        in (case struct_pack e signed number_h of
              Inl err \<Rightarrow> Inl err
            | Inr hb \<Rightarrow>
                (case struct_pack e signed number_l of
                   Inl err \<Rightarrow> Inl err
                 | Inr lb \<Rightarrow> Inr (hb @ lb)))
      else Inl (ValueError ''Only 4 and 8 n_bytes supported''))"

section \<open>Example programs\<close>

definition halting_mode :: Mode where
  "halting_mode = \<lparr>name = ''M'', n_loops = 1, next_mode_name = None, nesting = None,
      states = [\<lparr>data = 1, hold_time = 10\<rparr>]\<rparr>"

definition pin39_mode :: Mode where
  "pin39_mode = \<lparr>name = ''M'', n_loops = 1, next_mode_name = Some ''M'', nesting = None,
      states = [\<lparr>data = 2 ^ 39, hold_time = 0\<rparr>]\<rparr>"

definition M1_mode :: Mode where
  "M1_mode = \<lparr>name = ''M1'', n_loops = 3, next_mode_name = Some ''M2'', nesting = None,
      states = [\<lparr>data = 1, hold_time = 10\<rparr>, \<lparr>data = 2, hold_time = 10\<rparr>]\<rparr>"

definition M2_mode :: Mode where
  "M2_mode = \<lparr>name = ''M2'', n_loops = 0, next_mode_name = Some ''M1'', nesting = None,
      states = [\<lparr>data = 0, hold_time = 1\<rparr>]\<rparr>"

definition M12_program :: Program where
  "M12_program = \<lparr>codes = [39614090702081307318176383999, 16777226, 33554442,
                            39614085979498651666417189887, 1],
                   address_map = [(''M1'', 0), (''M2'', 3)],
                   prog_modes = [M1_mode, M2_mode]\<rparr>"

definition looping_mode :: "nat \<Rightarrow> Mode" where
  "looping_mode k = \<lparr>name = ''L'', n_loops = 0, next_mode_name = Some ''L'', nesting = None,
      states = replicate k \<lparr>data = 1, hold_time = 1\<rparr>\<rparr>"

definition orphan_mode :: Mode where
  "orphan_mode = \<lparr>name = ''A'', n_loops = 1, next_mode_name = Some ''Z'', nesting = None,
      states = []\<rparr>"

definition inner_mode :: Mode where
  "inner_mode = \<lparr>name = ''B'', n_loops = 1, next_mode_name = Some ''B'',
      nesting = Some (''C'', 2), states = []\<rparr>"

definition middle_mode :: Mode where
  "middle_mode = \<lparr>name = ''C'', n_loops = 1, next_mode_name = Some ''C'',
      nesting = Some (''D'', 2), states = []\<rparr>"

definition outer_mode :: Mode where
  "outer_mode = \<lparr>name = ''D'', n_loops = 1, next_mode_name = Some ''D'', nesting = None,
      states = []\<rparr>"

section \<open>A mode without a next mode\<close>

text \<open>
  C1.  A mode that omits \<^verbatim>\<open>next_mode\<close> should pass the validation of \<^verbatim>\<open>build\<close> and have
  the sentinel \<open>0x3FF\<close> in bits 31-16 of its header word.  \<^verbatim>\<open>Mode.get_code\<close> does encode the
  sentinel, but \<^verbatim>\<open>build\<close> looks \<^verbatim>\<open>mode.next_mode_name\<close> up without asking whether it is
  there: for the one-mode program below, made by \<^verbatim>\<open>Mode('M', 1)\<close> and one \<^verbatim>\<open>add_state\<close>,
  the lookup of \<^verbatim>\<open>None\<close> fails, the message "Next mode None for mode M does not exist." goes
  to the log and \<^verbatim>\<open>build\<close> raises.
\<close>

theorem build_missing_next_mode:
  "Mode_init ''M'' 1 None None None = Inr (halting_mode\<lparr>states := []\<rparr>)
   \<and> add_state (halting_mode\<lparr>states := []\<rparr>) \<lparr>data = 1, hold_time = 10\<rparr> = Inr halting_mode
   \<and> build \<lparr>modes = [halting_mode], log = new_context\<rparr>
       = (new_context\<lparr>error_out := [''Next mode None for mode M does not exist.'']\<rparr>,
          Inl (ValueError ''Compilation stopped because of consistency errors. Check log.''))
   \<and> map_sum id (\<lambda>c. drop_bit 16 c AND 0xFFFF) (Mode_get_code halting_mode [(''M'', 0)])
       = Inr 0x3FF"
  by code_simp

section \<open>Decoding a state word\<close>

text \<open>
  C2.  Decoding the word of a state should give back its pin vector (bits 87-24) and its hold
  time (bits 23-0).  The only decoder of state words, \<^verbatim>\<open>State.format_code\<close>, takes the hold
  time from bits 23-0 but the pins from bits 62-31.  On the module's own self-test,
  \<^verbatim>\<open>State.from_bits([1,1,1,1,0,0,0,0], 22)\<close>, the state has pins 0 to 3 set, and the decoded
  pin vector is 0: every pin is printed as 0.
\<close>

theorem State_format_code_selftest:
  "snd (from_bits new_context (map PyInt [1, 1, 1, 1, 0, 0, 0, 0]) 22)
     = Inr \<lparr>data = 15, hold_time = 22\<rparr>
   \<and> State_get_code \<lparr>data = 15, hold_time = 22\<rparr> = 251658262
   \<and> State_format_time 251658262 = 22
   \<and> State_format_data 251658262 = 0
   \<and> State_format_code 251658262 None
       = Inr ''0 0 0 0 0 0 0 0 0 0 0 0 0 0 0 0 0 0 0 0 0 0 0 0 0 0 0 0 0 0 0 0 , hold for: 22''"
  by code_simp

section \<open>Telling header words from state words\<close>

text \<open>
  C3.  \<^verbatim>\<open>Program.as_str\<close> should render a word as a Mode header exactly when its tag byte
  (bits 95-88) is \<open>0x80\<close>.  Its test is \<^verbatim>\<open>(c >> 63) == 1\<close>.  The program below has one mode
  with one state whose pin 39 is set: the header word has tag byte \<open>0x80\<close> and is rendered by
  the state formatter, the state word has tag byte 0 and is rendered by the mode formatter.
\<close>

theorem as_str_swaps_formatters:
  "build \<lparr>modes = [pin39_mode], log = new_context\<rparr>
     = (new_context,
        Inr \<lparr>codes = [39614085979570709260455117823, 9223372036854775808],
             address_map = [(''M'', 0)], prog_modes = [pin39_mode]\<rparr>)
   \<and> drop_bit 88 (39614085979570709260455117823 :: int) = 0x80
   \<and> drop_bit 88 (9223372036854775808 :: int) = 0
   \<and> as_str \<lparr>codes = [39614085979570709260455117823, 9223372036854775808],
              address_map = [(''M'', 0)], prog_modes = [pin39_mode]\<rparr> None
       = Inr (''0 0 0 0 0 0 0 0 0 0 0 0 0 0 0 0 0 0 0 0 0 0 0 0 0 1 0 0 0 0 0 0 , hold for: 1023''
              @ [CHR 0x0A]
              @ ''n_states:0 | n_loops:128 | nested_loops:0 | is_nested:0 | next_label:M | parent_label:M'')"
  by code_simp

section \<open>The range of the loop count\<close>

text \<open>
  C8.  Constructing a Mode should fail for every loop count outside \<open>[0, 2^16 - 1]\<close>.  The
  constructor tests only \<^verbatim>\<open>n_loops > self._max_n_loops\<close>, although its message names the range
  \<^verbatim>\<open>[0...65535]\<close> and the constructor of State tests both bounds of the hold time:
  \<^verbatim>\<open>Mode('M', -1)\<close> is accepted, with \<^verbatim>\<open>n_loops = -1\<close>.
\<close>

theorem Mode_init_negative_n_loops:
  "Mode_init ''M'' (- 1) None None None
     = Inr \<lparr>name = ''M'', n_loops = - 1, next_mode_name = None, nesting = None, states = []\<rparr>
   \<and> Mode_init ''M'' 65536 None None None
     = Inl (ValueError ''n_loops (65536) is out of range [0...65535].'')
   \<and> State_init 0 (- 1)
     = Inl (ValueError ''hold_time (-1) is out of range [0...16777215].'')"
  by code_simp

section \<open>Packing a 64-bit value\<close>

lemma and_low32: "(v::int) AND 0xFFFFFFFF = v mod 2 ^ 32"
proof -
  have "(0xFFFFFFFF::int) = mask 32" by (simp add: mask_eq_exp_minus_1)
  then have "v AND 0xFFFFFFFF = take_bit 32 v" by (simp only: take_bit_eq_mask)
  then show ?thesis by (simp only: take_bit_eq_mod)
qed

lemma and_high32: "drop_bit 32 ((v::int) AND 0xFFFFFFFF00000000) = (v div 2 ^ 32) mod 2 ^ 32"
proof -
  have m: "(0xFFFFFFFF00000000::int) = push_bit 32 (mask 32)"
    by (simp add: mask_eq_exp_minus_1 push_bit_eq_mult)
  have "drop_bit 32 (v AND push_bit 32 (mask 32)) = take_bit 32 (drop_bit 32 v)"
    by (rule bit_eqI) (auto simp add: bit_simps)
  then show ?thesis
    by (simp only: m take_bit_eq_mod drop_bit_eq_div)
qed

lemma le_bytes4: "le_bytes 4 n = [n mod 256, n div 256 mod 256, n div 65536 mod 256, n div 16777216 mod 256]"
proof -
  have a: "n div 256 div 256 = n div 65536" using zdiv_zmult2_eq [of 256 n 256] by simp
  have b: "n div 65536 div 256 = n div 16777216" using zdiv_zmult2_eq [of 256 n 65536] by simp
  show ?thesis by (simp add: numeral_eq_Suc a b)
qed


lemma struct_pack_unsigned:
  "0 \<le> n \<Longrightarrow> n < 2 ^ 32 \<Longrightarrow>
   struct_pack e False n =
     Inr (case e of
            Little \<Rightarrow> [n mod 256, n div 256 mod 256, n div 65536 mod 256, n div 16777216 mod 256]
          | Big \<Rightarrow> [n div 16777216 mod 256, n div 65536 mod 256, n div 256 mod 256, n mod 256])"
  by (cases e) (simp_all add: struct_pack_def le_bytes4)

lemma wide_halves:
  assumes "0 \<le> v" and "v < 2 ^ 64"
  shows "int_to_byte_list e v 8 False
     = (case struct_pack e False (v div 2 ^ 32) of
          Inl err \<Rightarrow> Inl err
        | Inr hb \<Rightarrow> (case struct_pack e False (v mod 2 ^ 32) of
                       Inl err \<Rightarrow> Inl err
                     | Inr lb \<Rightarrow> Inr (hb @ lb)))"
proof -
  have "v div 4294967296 < 4294967296" using assms by simp
  then have "v div 2 ^ 32 < 2 ^ 32" by simp
  moreover have "0 \<le> v div 2 ^ 32" using assms by simp
  ultimately have "v div 2 ^ 32 mod 2 ^ 32 = v div 2 ^ 32" by simp
  then show ?thesis
    by (simp only: int_to_byte_list_def and_low32 and_high32 Let_def) simp
qed

text \<open>
  C4.  For every unsigned 64-bit value \<open>v\<close>, \<^verbatim>\<open>int_to_byte_list(v, n_bytes=8)\<close> is the 4-byte
  encoding of the high 32 bits \<open>h\<close> of \<open>v\<close> followed by the 4-byte encoding of the low 32 bits
  \<open>l\<close>, each half in the configured byte order.  Little-endian, \<open>0x1122334455667788\<close> gives
  the bytes \<open>44 33 22 11 88 77 66 55\<close>, not the little-endian bytes
  \<open>88 77 66 55 44 33 22 11\<close> of the 8-byte integer.
\<close>

theorem int_to_byte_list_wide:
  assumes "0 \<le> v" and "v < 2 ^ 64" and "h = v div 2 ^ 32" and "l = v mod 2 ^ 32"
  shows "(\<exists>hb lb. int_to_byte_list e h 4 False = Inr hb
            \<and> int_to_byte_list e l 4 False = Inr lb
            \<and> int_to_byte_list e v 8 False = Inr (hb @ lb))
       \<and> int_to_byte_list Little v 8 False
           = Inr [h mod 256, h div 256 mod 256, h div 65536 mod 256, h div 16777216 mod 256,
                  l mod 256, l div 256 mod 256, l div 65536 mod 256, l div 16777216 mod 256]
       \<and> int_to_byte_list Big v 8 False
           = Inr [h div 16777216 mod 256, h div 65536 mod 256, h div 256 mod 256, h mod 256,
                  l div 16777216 mod 256, l div 65536 mod 256, l div 256 mod 256, l mod 256]
       \<and> int_to_byte_list Little 0x1122334455667788 8 False
           = Inr [0x44, 0x33, 0x22, 0x11, 0x88, 0x77, 0x66, 0x55]
       \<and> le_bytes 8 0x1122334455667788 = [0x88, 0x77, 0x66, 0x55, 0x44, 0x33, 0x22, 0x11]"
proof -
  have "v div 4294967296 < 4294967296" using assms by simp
  then have h: "0 \<le> h" "h < 2 ^ 32" using assms by simp_all
  have l: "0 \<le> l" "l < 2 ^ 32" using assms by simp_all
  have hp: "\<And>e. struct_pack e False h = Inr (case e of
            Little \<Rightarrow> [h mod 256, h div 256 mod 256, h div 65536 mod 256, h div 16777216 mod 256]
          | Big \<Rightarrow> [h div 16777216 mod 256, h div 65536 mod 256, h div 256 mod 256, h mod 256])"
    using struct_pack_unsigned [OF h] .
  have lp: "\<And>e. struct_pack e False l = Inr (case e of
            Little \<Rightarrow> [l mod 256, l div 256 mod 256, l div 65536 mod 256, l div 16777216 mod 256]
          | Big \<Rightarrow> [l div 16777216 mod 256, l div 65536 mod 256, l div 256 mod 256, l mod 256])"
    using struct_pack_unsigned [OF l] .
  have w: "\<And>e. int_to_byte_list e v 8 False
     = (case struct_pack e False h of
          Inl err \<Rightarrow> Inl err
        | Inr hb \<Rightarrow> (case struct_pack e False l of
                       Inl err \<Rightarrow> Inl err
                     | Inr lb \<Rightarrow> Inr (hb @ lb)))"
    unfolding assms(3,4) using wide_halves [OF assms(1,2)] .
  have four: "\<And>e n. int_to_byte_list e n 4 False = struct_pack e False n"
    by (simp add: int_to_byte_list_def)
  have c1: "\<exists>hb lb. int_to_byte_list e h 4 False = Inr hb
            \<and> int_to_byte_list e l 4 False = Inr lb
            \<and> int_to_byte_list e v 8 False = Inr (hb @ lb)"
    by (simp add: w four hp lp)
  have c2: "int_to_byte_list Little v 8 False
           = Inr [h mod 256, h div 256 mod 256, h div 65536 mod 256, h div 16777216 mod 256,
                  l mod 256, l div 256 mod 256, l div 65536 mod 256, l div 16777216 mod 256]"
    by (simp add: w hp lp)
  have c3: "int_to_byte_list Big v 8 False
           = Inr [h div 16777216 mod 256, h div 65536 mod 256, h div 256 mod 256, h mod 256,
                  l div 16777216 mod 256, l div 65536 mod 256, l div 256 mod 256, l mod 256]"
    by (simp add: w hp lp)
  have c4: "int_to_byte_list Little 0x1122334455667788 8 False
           = Inr [0x44, 0x33, 0x22, 0x11, 0x88, 0x77, 0x66, 0x55]"
    by code_simp
  have c5: "le_bytes 8 0x1122334455667788 = [0x88, 0x77, 0x66, 0x55, 0x44, 0x33, 0x22, 0x11 :: int]"
    by code_simp
  from c1 c2 c3 c4 c5 show ?thesis by blast
qed

theorem int_to_byte_list_wide_witness:
  "(0::int) \<le> 0x1122334455667788 \<and> (0x1122334455667788::int) < 2 ^ 64
   \<and> (0x11223344::int) = 0x1122334455667788 div 2 ^ 32
   \<and> (0x55667788::int) = 0x1122334455667788 mod 2 ^ 32
   \<and> int_to_byte_list Little 0x1122334455667788 8 False
       = Inr [0x44, 0x33, 0x22, 0x11, 0x88, 0x77, 0x66, 0x55]
   \<and> int_to_byte_list Big 0x1122334455667788 8 False
       = Inr [0x11, 0x22, 0x33, 0x44, 0x55, 0x66, 0x77, 0x88]"
proof -
  have a: "(0::int) \<le> 0x1122334455667788" and b: "(0x1122334455667788::int) < 2 ^ 64"
    and c: "(0x11223344::int) = 0x1122334455667788 div 2 ^ 32"
    and d: "(0x55667788::int) = 0x1122334455667788 mod 2 ^ 32"
    by simp_all
  note t = int_to_byte_list_wide [OF a b c d, of Little]
  from t have "int_to_byte_list Little 0x1122334455667788 8 False
      = Inr [0x11223344 mod 256, 0x11223344 div 256 mod 256, 0x11223344 div 65536 mod 256,
             0x11223344 div 16777216 mod 256,
             0x55667788 mod 256, 0x55667788 div 256 mod 256, 0x55667788 div 65536 mod 256,
             0x55667788 div 16777216 mod 256]"
    by (elim conjE)
  then have e: "int_to_byte_list Little 0x1122334455667788 8 False
       = Inr [0x44, 0x33, 0x22, 0x11, 0x88, 0x77, 0x66, 0x55]"
    by simp
  from t have "int_to_byte_list Big 0x1122334455667788 8 False
      = Inr [0x11223344 div 16777216 mod 256, 0x11223344 div 65536 mod 256,
             0x11223344 div 256 mod 256, 0x11223344 mod 256,
             0x55667788 div 16777216 mod 256, 0x55667788 div 65536 mod 256,
             0x55667788 div 256 mod 256, 0x55667788 mod 256]"
    by (elim conjE)
  then have f: "int_to_byte_list Big 0x1122334455667788 8 False
       = Inr [0x11, 0x22, 0x33, 0x44, 0x55, 0x66, 0x77, 0x88]"
    by simp
  from a b c d e f show ?thesis by (intro conjI)
qed

section \<open>States from a sequence of bit values\<close>

lemma bit_int_of_bool: "bit (int_of_bool b) n \<longleftrightarrow> b \<and> n = 0"
  by (simp add: int_of_bool_def bit_simps)

lemma bit_or_bits:
  "bit (or_bits (map int_of_bool bs) ii d) n
     \<longleftrightarrow> bit d n \<or> (ii \<le> n \<and> n - ii < length bs \<and> bs ! (n - ii))"
proof (induction bs arbitrary: ii d)
  case Nil
  then show ?case by simp
next
  case (Cons b bs)
  show ?case
    using Cons.IH [of "Suc ii" "d OR push_bit ii (int_of_bool b)"]
    by (auto simp add: bit_simps bit_int_of_bool nth_Cons' Suc_diff_Suc le_Suc_eq)
qed

lemma pin_of_bit: "drop_bit i (d::int) AND 1 = (if bit d i then 1 else 0)"
  by (simp add: and_one_eq bit_iff_odd_drop_bit mod_2_eq_odd)

text \<open>
  C10.  \<^verbatim>\<open>State.from_bits\<close> accepts every sequence of at most 64 entries (with a valid
  hold time) and coerces each entry by its truth value: pin \<open>i\<close> of the state is 1 exactly
  when entry \<open>i\<close> is truthy, and the pins beyond the sequence are 0.  The string \<^verbatim>\<open>'0'\<close> is
  not empty, hence truthy, and sets its pin to 1.
\<close>

theorem from_bits_truthiness:
  assumes "length data_bits \<le> 64" and "0 \<le> t" and "t \<le> max_hold_time"
  shows "(\<exists>lg' s. from_bits lg data_bits t = (lg', Inr s)
            \<and> hold_time s = t
            \<and> (\<forall>i < length data_bits.
                  get_value_of_address s (int i) = Inr (if py_bool (data_bits ! i) then 1 else 0))
            \<and> (\<forall>i \<ge> length data_bits. get_value_of_address s (int i) = Inr 0))
       \<and> py_bool (PyStr ''0'')
       \<and> (\<exists>lg' s. from_bits lg [PyStr ''0''] t = (lg', Inr s)
            \<and> get_value_of_address s 0 = Inr 1)"
proof -
  define s where "s = \<lparr>data = or_bits (map (\<lambda>bit. int_of_bool (py_bool bit)) data_bits) 0 0,
                        hold_time = t\<rparr>"
  have init: "\<And>d. State_init d t = Inr \<lparr>data = d, hold_time = t\<rparr>"
    using assms(2,3) by (simp add: State_init_def)
  have fb: "\<And>bs. length bs \<le> 64 \<Longrightarrow> \<exists>lg'. from_bits lg bs t
              = (lg', Inr \<lparr>data = or_bits (map (\<lambda>bit. int_of_bool (py_bool bit)) bs) 0 0,
                            hold_time = t\<rparr>)"
    by (simp add: from_bits_def Let_def max_states_length_def init)
  have m: "\<And>bs. map (\<lambda>bit. int_of_bool (py_bool bit)) bs = map int_of_bool (map py_bool bs)"
    by simp
  have pins: "\<And>bs i. get_value_of_address
        \<lparr>data = or_bits (map (\<lambda>bit. int_of_bool (py_bool bit)) bs) 0 0, hold_time = t\<rparr> (int i)
      = Inr (if i < length bs \<and> py_bool (bs ! i) then 1 else 0)"
    unfolding m
    by (auto simp add: get_value_of_address_def pin_of_bit bit_or_bits simp del: map_map)
  obtain lg' where 1: "from_bits lg data_bits t = (lg', Inr s)"
    using fb [OF assms(1)] s_def by auto
  have 2: "\<forall>i < length data_bits.
      get_value_of_address s (int i) = Inr (if py_bool (data_bits ! i) then 1 else 0)"
    by (simp add: s_def pins)
  have 3: "\<forall>i \<ge> length data_bits. get_value_of_address s (int i) = Inr 0"
    by (simp add: s_def pins)
  have 4: "hold_time s = t" by (simp add: s_def)
  obtain lg0 where 5: "from_bits lg [PyStr ''0''] t
      = (lg0, Inr \<lparr>data = or_bits (map (\<lambda>bit. int_of_bool (py_bool bit)) [PyStr ''0'']) 0 0,
                    hold_time = t\<rparr>)"
    using fb [of "[PyStr ''0'']"] by auto
  have 6: "get_value_of_address
      \<lparr>data = or_bits (map (\<lambda>bit. int_of_bool (py_bool bit)) [PyStr ''0'']) 0 0,
        hold_time = t\<rparr> 0 = Inr 1"
    using pins [of "[PyStr ''0'']" 0] by simp
  from 1 2 3 4 5 6 show ?thesis by auto
qed

theorem from_bits_truthiness_witness:
  "length [PyStr ''0'', PyInt 0, PyBool True] \<le> 64 \<and> (0::int) \<le> 5 \<and> 5 \<le> max_hold_time
   \<and> (\<exists>lg' s. from_bits new_context [PyStr ''0'', PyInt 0, PyBool True] 5 = (lg', Inr s)
         \<and> get_value_of_address s 0 = Inr 1
         \<and> get_value_of_address s 1 = Inr 0
         \<and> get_value_of_address s 2 = Inr 1
         \<and> get_value_of_address s 3 = Inr 0)"
proof -
  have a: "length [PyStr ''0'', PyInt 0, PyBool True] \<le> 64" by simp
  have b: "(0::int) \<le> 5" by simp
  have c: "(5::int) \<le> max_hold_time" by (simp add: max_hold_time_def)
  from from_bits_truthiness [OF a b c, of new_context]
  obtain lg' s where f: "from_bits new_context [PyStr ''0'', PyInt 0, PyBool True] 5 = (lg', Inr s)"
    and p: "\<forall>i < length [PyStr ''0'', PyInt 0, PyBool True].
              get_value_of_address s (int i)
                = Inr (if py_bool ([PyStr ''0'', PyInt 0, PyBool True] ! i) then 1 else 0)"
    and q: "\<forall>i \<ge> length [PyStr ''0'', PyInt 0, PyBool True]. get_value_of_address s (int i) = Inr 0"
    by blast
  have "get_value_of_address s 0 = Inr 1" using p [rule_format, of 0] by simp
  moreover have "get_value_of_address s 1 = Inr 0" using p [rule_format, of 1] by simp
  moreover have "get_value_of_address s 2 = Inr 1" using p [rule_format, of 2] by simp
  moreover have "get_value_of_address s 3 = Inr 0" using q [rule_format, of 3] by simp
  ultimately show ?thesis using a b c f by blast
qed

section \<open>Labels with a shared address\<close>

lemma filter_upt_Suc:
  "filter P [0..<Suc n] = (if P 0 then [0] else []) @ map Suc (filter (\<lambda>i. P (Suc i)) [0..<n])"
proof -
  have "[0..<Suc n] = 0 # map Suc [0..<n]"
    by (simp add: upt_conv_Cons map_Suc_upt del: upt_Suc)
  then show ?thesis by (simp add: filter_map comp_def del: upt_Suc)
qed

lemma Labels_scan_index:
  "Labels_scan kvs seen rep =
     rep @ map (\<lambda>i. fst (kvs ! i))
            (filter (\<lambda>i. snd (kvs ! i) \<in> set seen \<or> (\<exists>j<i. snd (kvs ! j) = snd (kvs ! i)))
               [0..<length kvs])"
proof (induction kvs arbitrary: seen rep)
  case Nil
  then show ?case by simp
next
  case (Cons kv kvs)
  obtain k v where kv: "kv = (k, v)" by (cases kv)
  show ?case
  proof (cases "v \<in> set seen")
    case True
    have "\<And>i. (snd (kvs ! i) \<in> set seen \<or> snd (kvs ! i) = v \<or> (\<exists>j<i. snd (kvs ! j) = snd (kvs ! i)))
        = (snd (kvs ! i) \<in> set seen \<or> (\<exists>j<i. snd (kvs ! j) = snd (kvs ! i)))"
      using True by auto
    then show ?thesis
      using True by (simp add: kv Cons.IH filter_upt_Suc Ex_less_Suc2 eq_commute [of v] del: upt_Suc)
  next
    case False
    show ?thesis
      using False
      by (simp add: kv Cons.IH filter_upt_Suc Ex_less_Suc2 eq_commute [of v] disj_ac del: upt_Suc)
  qed
qed


lemma no_repeat_iff_distinct:
  "filter (\<lambda>i. \<exists>j<i. xs ! j = xs ! i) [0..<length xs] = [] \<longleftrightarrow> distinct xs"
proof
  assume e: "filter (\<lambda>i. \<exists>j<i. xs ! j = xs ! i) [0..<length xs] = []"
  have "\<forall>i<length xs. \<forall>j<length xs. i \<noteq> j \<longrightarrow> xs ! i \<noteq> xs ! j"
  proof (intro allI impI)
    fix i j assume ij: "i < length xs" "j < length xs" "i \<noteq> j"
    from e have n: "\<And>a b. b < length xs \<Longrightarrow> a < b \<Longrightarrow> xs ! a \<noteq> xs ! b"
      by (auto simp add: filter_empty_conv)
    show "xs ! i \<noteq> xs ! j"
    proof (cases "i < j")
      case True
      then show ?thesis using n [of j i] ij by simp
    next
      case False
      then have "j < i" using ij by simp
      then show ?thesis using n [of i j] ij by auto
    qed
  qed
  then show "distinct xs" by (simp add: distinct_conv_nth)
next
  assume "distinct xs"
  then show "filter (\<lambda>i. \<exists>j<i. xs ! j = xs ! i) [0..<length xs] = []"
    by (auto simp add: filter_empty_conv distinct_conv_nth)
qed

lemma map_of_nth_distinct:
  "distinct (map fst ls) \<Longrightarrow> i < length ls \<Longrightarrow> map_of ls (fst (ls ! i)) = Some (snd (ls ! i))"
  by (metis map_of_eq_Some_iff nth_mem prod.collapse)

text \<open>
  C9.  A mapping in which two names share an address is rejected with one error, which should
  collect every name of a collision, the first one included.  The scan of \<^verbatim>\<open>Labels.__init__\<close>
  records a name only when its address has been seen before, so the first name enumerated
  with a shared address is not in the error: for \<^verbatim>\<open>{'A': 0, 'B': 0}\<close>, enumerated in this
  order, the error names \<^verbatim>\<open>B:0\<close> only.
\<close>

theorem Labels_init_first_name_missing:
  "Labels_init [(''A'', 0), (''B'', 0)]
     = Inl (ValueError ''There are repeated indexes for labels: B:0'')
   \<and> Labels_scan [(''A'', 0), (''B'', 0)] [] [] = [''B'']"
  by code_simp

text \<open>
  C9, as the code has it.  For a dictionary \<open>ls\<close> (its keys are distinct), construction
  succeeds exactly when no two names share an address; otherwise it fails with one
  \<^verbatim>\<open>ValueError\<close> whose message lists, in enumeration order, every name whose address is
  also the address of a name enumerated before it, that is every name of a collision but the
  first one enumerated.
\<close>

theorem Labels_init_repeated:
  assumes "distinct (map fst ls)"
  shows "Labels_init ls =
     (if distinct (map snd ls) then Inr \<lparr>labels = ls\<rparr>
      else Inl (ValueError (''There are repeated indexes for labels: ''
             @ join '','' (map (\<lambda>i. fst (ls ! i) @ '':'' @ str_int (snd (ls ! i)))
                            (filter (\<lambda>i. \<exists>j<i. snd (ls ! j) = snd (ls ! i)) [0..<length ls])))))"
proof -
  let ?dups = "filter (\<lambda>i. \<exists>j<i. snd (ls ! j) = snd (ls ! i)) [0..<length ls]"
  have scan: "Labels_scan ls [] [] = map (\<lambda>i. fst (ls ! i)) ?dups"
    by (simp add: Labels_scan_index)
  have "filter (\<lambda>i. \<exists>j<i. map snd ls ! j = map snd ls ! i) [0..<length (map snd ls)] = ?dups"
    by (rule filter_cong) auto
  then have empty: "?dups = [] \<longleftrightarrow> distinct (map snd ls)"
    using no_repeat_iff_distinct [of "map snd ls"] by simp
  have str: "map (\<lambda>k. k @ '':'' @ (case map_of ls k of None \<Rightarrow> ''None'' | Some v \<Rightarrow> str_int v))
               (map (\<lambda>i. fst (ls ! i)) ?dups)
           = map (\<lambda>i. fst (ls ! i) @ '':'' @ str_int (snd (ls ! i))) ?dups"
    using assms by (simp add: map_of_nth_distinct)
  show ?thesis
  proof (cases "distinct (map snd ls)")
    case True
    then have "?dups = []" using empty by simp
    then show ?thesis using True by (simp add: Labels_init_def scan)
  next
    case False
    then have "?dups \<noteq> []" using empty by simp
    then show ?thesis using False by (simp only: Labels_init_def scan str Let_def) simp
  qed
qed

theorem Labels_init_repeated_witness:
  "distinct (map fst [(''A'', 0::int), (''B'', 0), (''C'', 1), (''D'', 0)])
   \<and> \<not> distinct (map snd [(''A'', 0::int), (''B'', 0), (''C'', 1), (''D'', 0)])
   \<and> Labels_init [(''A'', 0), (''B'', 0), (''C'', 1), (''D'', 0)]
       = Inl (ValueError ''There are repeated indexes for labels: B:0,D:0'')
   \<and> Labels_init [(''A'', 0), (''B'', 0), (''C'', 1), (''D'', 0)]
       = Inl (ValueError (''There are repeated indexes for labels: ''
             @ join '','' (map (\<lambda>i. fst ([(''A'', 0), (''B'', 0), (''C'', 1), (''D'', 0)] ! i) @ '':''
                                  @ str_int (snd ([(''A'', 0), (''B'', 0), (''C'', 1), (''D'', 0)] ! i)))
                 (filter (\<lambda>i. \<exists>j<i. snd ([(''A'', 0::int), (''B'', 0), (''C'', 1), (''D'', 0)] ! j)
                                     = snd ([(''A'', 0), (''B'', 0), (''C'', 1), (''D'', 0)] ! i))
                    [0..<length [(''A'', 0::int), (''B'', 0), (''C'', 1), (''D'', 0)]]))))
   \<and> Labels_init [(''A'', 0), (''C'', 1)] = Inr \<lparr>labels = [(''A'', 0), (''C'', 1)]\<rparr>"
proof -
  have a: "distinct (map fst [(''A'', 0::int), (''B'', 0), (''C'', 1), (''D'', 0)])" by simp
  have b: "\<not> distinct (map snd [(''A'', 0::int), (''B'', 0), (''C'', 1), (''D'', 0)])" by simp
  have c: "Labels_init [(''A'', 0), (''B'', 0), (''C'', 1), (''D'', 0)]
       = Inl (ValueError ''There are repeated indexes for labels: B:0,D:0'')"
    by code_simp
  have d: "distinct (map fst [(''A'', 0::int), (''C'', 1)])" by simp
  have e: "Labels_init [(''A'', 0), (''C'', 1)] = Inr \<lparr>labels = [(''A'', 0), (''C'', 1)]\<rparr>"
    using Labels_init_repeated [OF d] by simp
  show ?thesis
    using Labels_init_repeated [OF a] a b c e by (simp only: if_False) simp
qed

section \<open>Address assignment\<close>

lemma map_of_dict_set: "map_of (dict_set d k v) = (map_of d)(k \<mapsto> v)"
  by (induction d k v rule: dict_set.induct) auto

lemma address_pass_other:
  "n \<notin> name ` set ms \<Longrightarrow> map_of (address_pass ms cur cache) n = map_of cache n"
  by (induction ms arbitrary: cur cache) (auto simp add: map_of_dict_set)

lemma address_pass_nth:
  "distinct (map name ms) \<Longrightarrow> i < length ms \<Longrightarrow>
   map_of (address_pass ms cur cache) (name (ms ! i))
     = Some (cur + (\<Sum>m\<leftarrow>take i ms. int (length (states m)) + 1))"
proof (induction ms arbitrary: cur cache i)
  case Nil
  then show ?case by simp
next
  case (Cons m ms)
  show ?case
  proof (cases i)
    case 0
    then show ?thesis using Cons.prems by (simp add: address_pass_other map_of_dict_set)
  next
    case (Suc i')
    then show ?thesis using Cons.prems Cons.IH [of i'] by (simp add: add.assoc)
  qed
qed

lemma add_mode_seq_modes:
  "add_mode_seq b ms = Inr b' \<Longrightarrow> distinct (map name (modes b)) \<Longrightarrow>
   modes b' = modes b @ ms \<and> distinct (map name (modes b @ ms)) \<and> log b' = log b"
proof (induction ms arbitrary: b)
  case Nil
  then show ?case by simp
next
  case (Cons m ms)
  from Cons.prems(1) obtain b1 where b1: "add_mode b m = Inr b1" and r: "add_mode_seq b1 ms = Inr b'"
    by (auto split: sum.splits)
  from b1 have m: "name m \<notin> set (map name (modes b))" "b1 = b\<lparr>modes := modes b @ [m]\<rparr>"
    by (auto simp add: add_mode_def mode_names_def split: if_splits)
  then have "distinct (map name (modes b1))" using Cons.prems(2) by simp
  from Cons.IH [OF r this] show ?case using m by simp
qed

lemma build_address_map:
  "build b = (lg, Inr p) \<Longrightarrow> address_map p = address_pass (modes b) 0 []"
  by (auto simp add: build_def Let_def split: if_splits sum.splits)

text \<open>
  C5.  For modes registered in the order \<open>ms\<close> (by \<^verbatim>\<open>add_mode\<close>, which refuses a name
  twice), the address map of the built program gives the first mode address 0 and each
  following mode the address of its predecessor plus one plus the number of the
  predecessor's states; the addresses are strictly increasing in registration order.  With
  M1 of two states followed by M2, M1 is at 0 and M2 at 3.
\<close>

theorem build_addresses:
  assumes "add_mode_seq (ProgramBuilder_init lg0) ms = Inr b" and "build b = (lg, Inr p)"
  shows "(ms \<noteq> [] \<longrightarrow> get_address p (name (ms ! 0)) = Inr 0)
       \<and> (\<forall>i. Suc i < length ms \<longrightarrow>
            (\<exists>a. get_address p (name (ms ! i)) = Inr a
               \<and> get_address p (name (ms ! Suc i)) = Inr (a + 1 + int (length (states (ms ! i))))))
       \<and> (\<forall>i j. i < j \<and> j < length ms \<longrightarrow>
            (\<exists>a c. get_address p (name (ms ! i)) = Inr a
               \<and> get_address p (name (ms ! j)) = Inr c \<and> a < c))"
proof -
  let ?w = "\<lambda>m. int (length (states m)) + 1"
  let ?off = "\<lambda>i. \<Sum>m\<leftarrow>take i ms. ?w m"
  have ms: "modes b = ms" and d: "distinct (map name ms)"
    using add_mode_seq_modes [OF assms(1)] by (simp_all add: ProgramBuilder_init_def)
  have amap: "address_map p = address_pass ms 0 []"
    using build_address_map [OF assms(2)] ms by simp
  have addr: "\<And>i. i < length ms \<Longrightarrow> get_address p (name (ms ! i)) = Inr (?off i)"
    using address_pass_nth [OF d, of _ 0 "[]"] by (simp add: get_address_def dict_get_def amap)
  have step: "\<And>i. Suc i < length ms \<Longrightarrow> ?off (Suc i) = ?off i + 1 + int (length (states (ms ! i)))"
    by (simp add: take_Suc_conv_app_nth)
  have mono: "\<And>i j. i < j \<Longrightarrow> j < length ms \<Longrightarrow> ?off i < ?off j"
  proof -
    fix i j :: nat assume "i < j" "j < length ms"
    then show "?off i < ?off j"
    proof (induction j)
      case 0
      then show ?case by simp
    next
      case (Suc j)
      have s: "?off (Suc j) = ?off j + 1 + int (length (states (ms ! j)))"
        using Suc.prems by (simp add: take_Suc_conv_app_nth)
      show ?case
      proof (cases "i = j")
        case True
        then show ?thesis using s by simp
      next
        case False
        then have "?off i < ?off j" using Suc by simp
        then show ?thesis using s by simp
      qed
    qed
  qed
  have 1: "ms \<noteq> [] \<longrightarrow> get_address p (name (ms ! 0)) = Inr 0"
    using addr [of 0] by simp
  have 2: "\<forall>i. Suc i < length ms \<longrightarrow>
            (\<exists>a. get_address p (name (ms ! i)) = Inr a
               \<and> get_address p (name (ms ! Suc i)) = Inr (a + 1 + int (length (states (ms ! i)))))"
  proof (intro allI impI)
    fix i assume s: "Suc i < length ms"
    then have i: "i < length ms" by simp
    have "get_address p (name (ms ! Suc i)) = Inr (?off i + 1 + int (length (states (ms ! i))))"
      using addr [OF s] step [OF s] by (simp only:)
    with addr [OF i]
    show "\<exists>a. get_address p (name (ms ! i)) = Inr a
               \<and> get_address p (name (ms ! Suc i)) = Inr (a + 1 + int (length (states (ms ! i))))"
      by blast
  qed
  have 3: "\<forall>i j. i < j \<and> j < length ms \<longrightarrow>
            (\<exists>a c. get_address p (name (ms ! i)) = Inr a
               \<and> get_address p (name (ms ! j)) = Inr c \<and> a < c)"
  proof (intro allI impI)
    fix i j assume ij: "i < j \<and> j < length ms"
    then have i: "i < length ms" and j: "j < length ms" and lt: "i < j" by simp_all
    from addr [OF i] addr [OF j] mono [OF lt j]
    show "\<exists>a c. get_address p (name (ms ! i)) = Inr a
               \<and> get_address p (name (ms ! j)) = Inr c \<and> a < c"
      by blast
  qed
  from 1 2 3 show ?thesis by blast
qed

theorem build_addresses_witness:
  "add_mode_seq (ProgramBuilder_init new_context) [M1_mode, M2_mode]
     = Inr \<lparr>modes = [M1_mode, M2_mode], log = new_context\<rparr>
   \<and> build \<lparr>modes = [M1_mode, M2_mode], log = new_context\<rparr> = (new_context, Inr M12_program)
   \<and> get_address M12_program ''M1'' = Inr 0
   \<and> get_address M12_program ''M2'' = Inr 3"
proof -
  have a: "add_mode_seq (ProgramBuilder_init new_context) [M1_mode, M2_mode]
     = Inr \<lparr>modes = [M1_mode, M2_mode], log = new_context\<rparr>"
    by code_simp
  have b: "build \<lparr>modes = [M1_mode, M2_mode], log = new_context\<rparr> = (new_context, Inr M12_program)"
    by code_simp
  note t = build_addresses [OF a b]
  have n: "name M1_mode = ''M1''" "name M2_mode = ''M2''" "int (length (states M1_mode)) = 2"
    by (simp_all add: M1_mode_def M2_mode_def)
  from t have 1: "get_address M12_program ''M1'' = Inr 0"
    by (simp add: n)
  from t obtain a' where "get_address M12_program ''M1'' = Inr a'"
    and "get_address M12_program ''M2'' = Inr (a' + 1 + 2)"
    by (auto simp add: n)
  with 1 have 2: "get_address M12_program ''M2'' = Inr 3" by simp
  from a b 1 2 show ?thesis by (intro conjI)
qed

section \<open>The capacity of the program memory\<close>

lemma get_mode_registered:
  "\<exists>m'\<in>set all. n = Some (name m') \<Longrightarrow>
   \<exists>m'. get_mode all n = Inr m' \<and> m' \<in> set all \<and> n = Some (name m')"
  by (induction all) auto

lemma get_mode_Inr:
  "get_mode all n = Inr m' \<Longrightarrow> m' \<in> set all \<and> n = Some (name m')"
  by (induction all) (auto split: if_splits)

lemma check_mode_ok:
  assumes "get_mode all (next_mode_name m) = Inr m'"
    and "is_nested m \<longrightarrow> (\<exists>p. get_mode all (parent_mode_name m) = Inr p \<and> \<not> is_nested p)"
  shows "check_mode all m st = st"
  using assms by (auto simp add: check_mode_def)

lemma check_modes_ok:
  assumes "\<forall>m\<in>set ms. (\<exists>m'. get_mode all (next_mode_name m) = Inr m')
      \<and> (is_nested m \<longrightarrow> (\<exists>p. get_mode all (parent_mode_name m) = Inr p \<and> \<not> is_nested p))"
  shows "check_modes all ms st = st"
  using assms by (induction ms arbitrary: st) (auto simp add: check_mode_ok)

lemma address_pass_dom:
  "map_of (address_pass ms cur cache) n \<noteq> None
     \<longleftrightarrow> n \<in> name ` set ms \<or> map_of cache n \<noteq> None"
  by (induction ms arbitrary: cur cache) (auto simp add: map_of_dict_set)

lemma Mode_get_code_Inr:
  assumes "truthy_name (next_mode_name m) \<longrightarrow> map_of cache (str_opt (next_mode_name m)) \<noteq> None"
    and "\<forall>p nl. nesting m = Some (p, nl) \<longrightarrow> map_of cache p \<noteq> None"
  shows "\<exists>c. Mode_get_code m cache = Inr c"
  using assms
  by (cases "nesting m") (auto simp add: Mode_get_code_def dict_get_def Let_def split: option.splits)

lemma encode_modes_length:
  assumes "\<forall>m\<in>set ms. \<exists>c. Mode_get_code m cache = Inr c"
  shows "\<exists>cs'. encode_modes ms cache cs = Inr cs'
           \<and> length cs' = length cs + (\<Sum>m\<leftarrow>ms. 1 + length (states m))"
  using assms
proof (induction ms arbitrary: cs)
  case Nil
  then show ?case by simp
next
  case (Cons m ms)
  then obtain c where c: "Mode_get_code m cache = Inr c" by auto
  from Cons.IH [of "cs @ [c] @ map State_get_code (states m)"] Cons.prems
  show ?case by (auto simp add: c)
qed

lemma str_int_1023: "str_int 1023 = ''1023''"
  by code_simp

text \<open>
  C6.  For a program that passes the consistency checks (every mode names a registered next
  mode; the parent of every nested mode is registered and not nested), \<^verbatim>\<open>build\<close> encodes all
  modes, one header word per mode and one word per state, and then compares the number \<open>n\<close>
  of words with 1023: up to 1023 words it returns the program, from 1024 words on it raises
  an error whose message carries \<open>n\<close> and the limit, \<^verbatim>\<open>(n/1023)\<close>.
\<close>

theorem build_capacity:
  assumes next_ok: "\<forall>m\<in>set (modes b). \<exists>m'\<in>set (modes b). next_mode_name m = Some (name m')"
    and parent_ok: "\<forall>m\<in>set (modes b). is_nested m \<longrightarrow>
        (\<exists>p\<in>set (modes b). parent_mode_name m = Some (name p))
        \<and> (\<forall>p\<in>set (modes b). parent_mode_name m = Some (name p) \<longrightarrow> \<not> is_nested p)"
    and n: "n = (\<Sum>m\<leftarrow>modes b. 1 + length (states m))"
  shows "(n \<le> 1023 \<longrightarrow> (\<exists>p. build b = (log b, Inr p) \<and> length (codes p) = n))
       \<and> (1024 \<le> n \<longrightarrow> build b = (log b, Inl (ValueError
            (''Compilation stopped because of maximum memory lines restriction (''
               @ str_nat n @ ''/1023)''))))"
proof -
  let ?ms = "modes b"
  let ?cache = "address_pass ?ms 0 []"
  have ok: "\<forall>m\<in>set ?ms. (\<exists>m'. get_mode ?ms (next_mode_name m) = Inr m')
      \<and> (is_nested m \<longrightarrow> (\<exists>p. get_mode ?ms (parent_mode_name m) = Inr p \<and> \<not> is_nested p))"
  proof
    fix m assume m: "m \<in> set ?ms"
    from next_ok m have "\<exists>m'\<in>set ?ms. next_mode_name m = Some (name m')" by blast
    from get_mode_registered [OF this]
    have 1: "\<exists>m'. get_mode ?ms (next_mode_name m) = Inr m'" by blast
    have 2: "is_nested m \<longrightarrow> (\<exists>p. get_mode ?ms (parent_mode_name m) = Inr p \<and> \<not> is_nested p)"
    proof
      assume nm: "is_nested m"
      with parent_ok m have e: "\<exists>p\<in>set ?ms. parent_mode_name m = Some (name p)"
        and a: "\<forall>p\<in>set ?ms. parent_mode_name m = Some (name p) \<longrightarrow> \<not> is_nested p"
        by blast+
      from get_mode_registered [OF e] obtain p where "get_mode ?ms (parent_mode_name m) = Inr p"
        and "p \<in> set ?ms" and "parent_mode_name m = Some (name p)" by blast
      with a show "\<exists>p. get_mode ?ms (parent_mode_name m) = Inr p \<and> \<not> is_nested p" by blast
    qed
    from 1 2 show "(\<exists>m'. get_mode ?ms (next_mode_name m) = Inr m')
      \<and> (is_nested m \<longrightarrow> (\<exists>p. get_mode ?ms (parent_mode_name m) = Inr p \<and> \<not> is_nested p))" ..
  qed
  have chk: "check_modes ?ms ?ms (False, log b) = (False, log b)"
    using check_modes_ok [OF ok] .
  have codes_ok: "\<forall>m\<in>set ?ms. \<exists>c. Mode_get_code m ?cache = Inr c"
  proof
    fix m assume m: "m \<in> set ?ms"
    from next_ok m obtain m' where "m' \<in> set ?ms" "next_mode_name m = Some (name m')" by blast
    then have a: "truthy_name (next_mode_name m)
        \<longrightarrow> map_of ?cache (str_opt (next_mode_name m)) \<noteq> None"
      using address_pass_dom [of ?ms 0 "[]" "name m'"] by (auto simp add: str_opt_def)
    have b: "\<forall>p nl. nesting m = Some (p, nl) \<longrightarrow> map_of ?cache p \<noteq> None"
    proof (intro allI impI)
      fix p nl assume pn: "nesting m = Some (p, nl)"
      then have "is_nested m" "parent_mode_name m = Some p"
        by (simp_all add: is_nested_def parent_mode_name_def)
      with parent_ok m obtain q where "q \<in> set ?ms" "Some p = Some (name q)" by metis
      then show "map_of ?cache p \<noteq> None"
        using address_pass_dom [of ?ms 0 "[]" p] by auto
    qed
    from Mode_get_code_Inr [OF a b] show "\<exists>c. Mode_get_code m ?cache = Inr c" .
  qed
  from encode_modes_length [OF codes_ok, of "[]"]
  obtain cs where cs: "encode_modes ?ms ?cache [] = Inr cs" and len: "length cs = n"
    using n by auto
  have small: "n \<le> 1023 \<longrightarrow> (\<exists>p. build b = (log b, Inr p) \<and> length (codes p) = n)"
    using len by (simp add: build_def chk cs max_n_lines_def)
  have big: "1024 \<le> n \<longrightarrow> build b = (log b, Inl (ValueError
            (''Compilation stopped because of maximum memory lines restriction (''
               @ str_nat n @ ''/1023)'')))"
    using len by (simp add: build_def chk cs max_n_lines_def str_int_1023)
  from small big show ?thesis ..
qed

theorem build_capacity_witness:
  "next_mode_name (looping_mode 1022) = Some (name (looping_mode 1022))
   \<and> \<not> is_nested (looping_mode 1022)
   \<and> (1023::nat) = (\<Sum>m\<leftarrow>[looping_mode 1022]. 1 + length (states m))
   \<and> (\<exists>p. build \<lparr>modes = [looping_mode 1022], log = new_context\<rparr> = (new_context, Inr p)
          \<and> length (codes p) = 1023)
   \<and> (1024::nat) = (\<Sum>m\<leftarrow>[looping_mode 1023]. 1 + length (states m))
   \<and> build \<lparr>modes = [looping_mode 1023], log = new_context\<rparr>
       = (new_context, Inl (ValueError
            ''Compilation stopped because of maximum memory lines restriction (1024/1023)''))"
proof -
  have nx: "\<And>k. \<forall>m\<in>set (modes \<lparr>modes = [looping_mode k], log = new_context\<rparr>).
      \<exists>m'\<in>set (modes \<lparr>modes = [looping_mode k], log = new_context\<rparr>).
        next_mode_name m = Some (name m')"
    by (simp add: looping_mode_def)
  have nn: "\<And>k. \<not> is_nested (looping_mode k)"
    by (simp add: looping_mode_def is_nested_def)
  then have pa: "\<And>k. \<forall>m\<in>set (modes \<lparr>modes = [looping_mode k], log = new_context\<rparr>). is_nested m \<longrightarrow>
        (\<exists>p\<in>set (modes \<lparr>modes = [looping_mode k], log = new_context\<rparr>).
            parent_mode_name m = Some (name p))
        \<and> (\<forall>p\<in>set (modes \<lparr>modes = [looping_mode k], log = new_context\<rparr>).
            parent_mode_name m = Some (name p) \<longrightarrow> \<not> is_nested p)"
    by simp
  have n1: "(1023::nat) = (\<Sum>m\<leftarrow>modes \<lparr>modes = [looping_mode 1022], log = new_context\<rparr>.
      1 + length (states m))"
    by (simp add: looping_mode_def)
  have n2: "(1024::nat) = (\<Sum>m\<leftarrow>modes \<lparr>modes = [looping_mode 1023], log = new_context\<rparr>.
      1 + length (states m))"
    by (simp add: looping_mode_def)
  have s: "str_nat 1024 = ''1024''" by code_simp
  have 1: "\<exists>p. build \<lparr>modes = [looping_mode 1022], log = new_context\<rparr> = (new_context, Inr p)
          \<and> length (codes p) = 1023"
    using build_capacity [OF nx pa n1] by simp
  have 2: "build \<lparr>modes = [looping_mode 1023], log = new_context\<rparr>
       = (new_context, Inl (ValueError
            ''Compilation stopped because of maximum memory lines restriction (1024/1023)''))"
    using build_capacity [OF nx pa n2] by (simp add: s)
  have nx0: "next_mode_name (looping_mode 1022) = Some (name (looping_mode 1022))"
    by (simp add: looping_mode_def)
  from nx0 nn [of 1022] n1 n2 1 2 show ?thesis by simp
qed

section \<open>Reporting all consistency issues\<close>

text \<open>
  C7.  A single \<^verbatim>\<open>build\<close> should raise one error that contains all the issues found.  The
  program below has a mode A whose next mode Z is not registered and a mode B nested in C,
  which is itself nested in D.  \<^verbatim>\<open>build\<close> checks every mode and sends both issues to the
  log, one message each; the error it raises is a \<^verbatim>\<open>ValueError\<close> with a fixed message that
  refers to the log and contains neither issue.
\<close>

theorem build_error_names_no_issue:
  "build \<lparr>modes = [orphan_mode, inner_mode, middle_mode, outer_mode], log = new_context\<rparr>
     = (new_context\<lparr>error_out := [''Next mode Z for mode A does not exist.'',
                                     ''Double nested modes detected: B in C in D.'']\<rparr>,
        Inl (ValueError ''Compilation stopped because of consistency errors. Check log.''))
   \<and> \<not> sublist ''Next mode Z for mode A does not exist.''
         ''Compilation stopped because of consistency errors. Check log.''
   \<and> \<not> sublist ''Double nested modes detected: B in C in D.''
         ''Compilation stopped because of consistency errors. Check log.''"
  by code_simp

lemma check_mode_issues:
  assumes "0 < verbosity lg"
  shows "check_mode all m (e, lg)
     = (e \<or> mode_issues all m \<noteq> [], lg\<lparr>error_out := error_out lg @ mode_issues all m\<rparr>)"
  using assms
  by (cases "get_mode all (next_mode_name m)"; cases "get_mode all (parent_mode_name m)")
     (simp_all add: check_mode_def mode_issues_def log_error_def new_context_def Let_def)

lemma check_modes_issues:
  assumes "0 < verbosity lg"
  shows "check_modes all ms (e, lg)
     = (e \<or> (\<exists>m\<in>set ms. mode_issues all m \<noteq> []),
        lg\<lparr>error_out := error_out lg @ concat (map (mode_issues all) ms)\<rparr>)"
  using assms
proof (induction ms arbitrary: e lg)
  case Nil
  then show ?case by simp
next
  case (Cons m ms)
  have v: "0 < verbosity (lg\<lparr>error_out := error_out lg @ mode_issues all m\<rparr>)"
    using Cons.prems by simp
  show ?case
    by (simp add: check_mode_issues [OF Cons.prems] Cons.IH [OF v])
qed


lemma get_mode_Inl_iff:
  "(\<exists>e. get_mode all n = Inl e) \<longleftrightarrow> \<not> (\<exists>m'\<in>set all. n = Some (name m'))"
proof
  assume "\<exists>e. get_mode all n = Inl e"
  then obtain e where e: "get_mode all n = Inl e" ..
  show "\<not> (\<exists>m'\<in>set all. n = Some (name m'))"
  proof
    assume "\<exists>m'\<in>set all. n = Some (name m')"
    from get_mode_registered [OF this] e show False by auto
  qed
next
  assume a: "\<not> (\<exists>m'\<in>set all. n = Some (name m'))"
  show "\<exists>e. get_mode all n = Inl e"
  proof (cases "get_mode all n")
    case (Inl e)
    then show ?thesis by blast
  next
    case (Inr m')
    from get_mode_Inr [OF this] a show ?thesis by blast
  qed
qed

lemma get_mode_distinct:
  "distinct (map name all) \<Longrightarrow> p \<in> set all \<Longrightarrow> get_mode all (Some (name p)) = Inr p"
  by (induction all) auto

lemma mode_issues_split:
  "mode_issues all m =
     (case get_mode all (next_mode_name m) of Inl e \<Rightarrow> [next_mode_issue m] | Inr m' \<Rightarrow> [])
     @ (if is_nested m
        then (case get_mode all (parent_mode_name m) of
                Inl e \<Rightarrow> [parent_mode_issue m]
              | Inr parent \<Rightarrow> if is_nested parent then [double_nested_issue m parent] else [])
        else [])"
  by (cases "get_mode all (next_mode_name m)"; cases "get_mode all (parent_mode_name m)")
     (simp_all add: check_mode_def mode_issues_def log_error_def new_context_def Let_def)

lemma mode_issues_length:
  assumes "distinct (map name all)"
  shows "length (mode_issues all m)
     = (if \<exists>m'\<in>set all. next_mode_name m = Some (name m') then 0 else 1)
       + (if is_nested m \<and> \<not> (\<exists>p\<in>set all. parent_mode_name m = Some (name p) \<and> \<not> is_nested p)
          then 1 else 0)"
proof -
  have nx: "length (case get_mode all (next_mode_name m) of
                      Inl e \<Rightarrow> [next_mode_issue m] | Inr m' \<Rightarrow> [])
      = (if \<exists>m'\<in>set all. next_mode_name m = Some (name m') then 0 else 1)"
    using get_mode_Inl_iff [of all "next_mode_name m"]
    by (cases "get_mode all (next_mode_name m)") auto
  have pa: "length (case get_mode all (parent_mode_name m) of
                Inl e \<Rightarrow> [parent_mode_issue m]
              | Inr parent \<Rightarrow> if is_nested parent then [double_nested_issue m parent] else [])
      = (if \<not> (\<exists>p\<in>set all. parent_mode_name m = Some (name p) \<and> \<not> is_nested p)
          then 1 else 0)"
  proof (cases "get_mode all (parent_mode_name m)")
    case (Inl e)
    then have "\<not> (\<exists>p\<in>set all. parent_mode_name m = Some (name p))"
      using get_mode_Inl_iff [of all "parent_mode_name m"] by blast
    then show ?thesis using Inl by auto
  next
    case (Inr parent)
    from get_mode_Inr [OF this]
    have p: "parent \<in> set all" "parent_mode_name m = Some (name parent)" by simp_all
    have u: "\<And>q. q \<in> set all \<Longrightarrow> parent_mode_name m = Some (name q) \<Longrightarrow> q = parent"
    proof -
      fix q assume q: "q \<in> set all" "parent_mode_name m = Some (name q)"
      from get_mode_distinct [OF assms q(1)] q(2) Inr show "q = parent" by simp
    qed
    show ?thesis
    proof (cases "is_nested parent")
      case True
      have "\<not> (\<exists>p\<in>set all. parent_mode_name m = Some (name p) \<and> \<not> is_nested p)"
      proof
        assume "\<exists>p\<in>set all. parent_mode_name m = Some (name p) \<and> \<not> is_nested p"
        then obtain q where "q \<in> set all" "parent_mode_name m = Some (name q)" "\<not> is_nested q"
          by blast
        with u [of q] True show False by blast
      qed
      then show ?thesis using Inr True by simp
    next
      case False
      with p have "\<exists>p\<in>set all. parent_mode_name m = Some (name p) \<and> \<not> is_nested p" by blast
      then show ?thesis using Inr False by simp
    qed
  qed
  show ?thesis
  proof (cases "is_nested m")
    case True
    then show ?thesis
      by (simp only: mode_issues_split length_append if_True nx pa simp_thms)
  next
    case False
    then show ?thesis
      by (simp only: mode_issues_split length_append if_False nx simp_thms list.size)
  qed
qed

lemma concat_length_filters:
  assumes "\<forall>m\<in>set ms. length (f m) = (if A m then 0 else 1) + (if B m then 1 else 0)"
  shows "length (concat (map f ms)) = length (filter (\<lambda>m. \<not> A m) ms) + length (filter B ms)"
  using assms by (induction ms) auto


lemma build_log:
  "fst (build b) = snd (check_modes (modes b) (modes b) (False, log b))"
  by (simp add: build_def Let_def split: sum.splits)

lemma Mode_get_code_Inl:
  "Mode_get_code m cache = Inl e \<Longrightarrow> \<exists>k. e = KeyError k"
  by (auto simp add: Mode_get_code_def dict_get_def Let_def
      split: if_splits option.splits sum.splits prod.splits)

lemma encode_modes_Inl:
  "encode_modes ms cache cs = Inl e \<Longrightarrow> \<exists>k. e = KeyError k"
proof (induction ms arbitrary: cs)
  case Nil
  then show ?case by simp
next
  case (Cons m ms)
  show ?case
  proof (cases "Mode_get_code m cache")
    case (Inl e')
    with Cons.prems have "e' = e" by simp
    with Inl Mode_get_code_Inl show ?thesis by blast
  next
    case (Inr c)
    with Cons.prems Cons.IH show ?thesis by simp
  qed
qed

lemma build_consistency_error:
  "snd (build b) = Inl (ValueError ''Compilation stopped because of consistency errors. Check log.'')
     \<longleftrightarrow> fst (check_modes (modes b) (modes b) (False, log b))"
proof (cases "fst (check_modes (modes b) (modes b) (False, log b))")
  case True
  then show ?thesis by (simp add: build_def Let_def)
next
  case False
  show ?thesis
  proof (cases "encode_modes (modes b) (address_pass (modes b) 0 []) []")
    case (Inl e)
    with encode_modes_Inl obtain k where "e = KeyError k" by blast
    with Inl False show ?thesis by (simp add: build_def Let_def)
  next
    case (Inr cs)
    with False show ?thesis by (simp add: build_def Let_def)
  qed
qed

lemma filter_name_distinct:
  "distinct (map name all) \<Longrightarrow> q \<in> set all \<Longrightarrow> filter (\<lambda>p. name p = name q) all = [q]"
proof (induction all)
  case Nil
  then show ?case by simp
next
  case (Cons a all)
  show ?case
  proof (cases "a = q")
    case True
    have "name q \<notin> name ` set all" using Cons.prems(1) True by simp
    then have "\<forall>x\<in>set all. name x \<noteq> name q" by (metis imageI)
    then have "filter (\<lambda>p. name p = name q) all = []"
      by (simp add: filter_empty_conv)
    then show ?thesis using True by simp
  next
    case False
    then have q: "q \<in> set all" using Cons.prems(2) by simp
    then have "name a \<noteq> name q" using Cons.prems(1) by auto
    then show ?thesis using Cons.IH q Cons.prems(1) by simp
  qed
qed

lemma mode_issues_explicit:
  assumes "distinct (map name all)"
  shows "mode_issues all m =
     (if \<exists>m'\<in>set all. next_mode_name m = Some (name m') then [] else [next_mode_issue m])
     @ (if is_nested m \<and> \<not> (\<exists>p\<in>set all. parent_mode_name m = Some (name p))
        then [parent_mode_issue m] else [])
     @ map (double_nested_issue m)
         (filter (\<lambda>p. parent_mode_name m = Some (name p) \<and> is_nested p) all)"
proof -
  have nx: "(case get_mode all (next_mode_name m) of
               Inl e \<Rightarrow> [next_mode_issue m] | Inr m' \<Rightarrow> [])
      = (if \<exists>m'\<in>set all. next_mode_name m = Some (name m') then [] else [next_mode_issue m])"
    using get_mode_Inl_iff [of all "next_mode_name m"]
    by (cases "get_mode all (next_mode_name m)") auto
  have pa: "(if is_nested m
        then (case get_mode all (parent_mode_name m) of
                Inl e \<Rightarrow> [parent_mode_issue m]
              | Inr parent \<Rightarrow> if is_nested parent then [double_nested_issue m parent] else [])
        else [])
      = (if is_nested m \<and> \<not> (\<exists>p\<in>set all. parent_mode_name m = Some (name p))
        then [parent_mode_issue m] else [])
     @ map (double_nested_issue m)
         (filter (\<lambda>p. parent_mode_name m = Some (name p) \<and> is_nested p) all)"
  proof (cases "is_nested m")
    case False
    then have "parent_mode_name m = None"
      by (cases "nesting m") (simp_all add: is_nested_def parent_mode_name_def)
    then show ?thesis using False by simp
  next
    case True
    show ?thesis
    proof (cases "get_mode all (parent_mode_name m)")
      case (Inl e)
      then have n: "\<not> (\<exists>p\<in>set all. parent_mode_name m = Some (name p))"
        using get_mode_Inl_iff [of all "parent_mode_name m"] by blast
      then have "filter (\<lambda>p. parent_mode_name m = Some (name p) \<and> is_nested p) all = []"
        by (auto simp add: filter_empty_conv)
      then show ?thesis using True Inl n by simp
    next
      case (Inr parent)
      from get_mode_Inr [OF this]
      have p: "parent \<in> set all" "parent_mode_name m = Some (name parent)" by simp_all
      have "filter (\<lambda>p. parent_mode_name m = Some (name p) \<and> is_nested p) all
          = filter is_nested (filter (\<lambda>p. name p = name parent) all)"
        by (auto simp add: p(2) intro: filter_cong)
      also have "\<dots> = filter is_nested [parent]"
        by (simp only: filter_name_distinct [OF assms p(1)])
      finally have f: "filter (\<lambda>p. parent_mode_name m = Some (name p) \<and> is_nested p) all
          = (if is_nested parent then [parent] else [])"
        by simp
      have e: "\<exists>p\<in>set all. parent_mode_name m = Some (name p)" using p by blast
      show ?thesis using True Inr e by (simp add: f)
    qed
  qed
  show ?thesis by (simp only: mode_issues_split nx pa)
qed

text \<open>
  C7, as the code has it.  For modes with distinct names and a log that prints errors
  (verbosity above 0), one \<^verbatim>\<open>build\<close> checks every mode and appends its messages to the
  log in registration order of the modes: for each mode first the message for a next mode
  that is not registered, then, for a nested mode, the message for a parent that is not
  registered or the message for a registered parent that is itself nested.  So the log
  receives exactly one message for each mode whose next mode is not registered and one for
  each nested mode whose parent is not a registered, non-nested mode.  \<^verbatim>\<open>build\<close> raises the
  fixed consistency error exactly when at least one message was logged.
\<close>

theorem build_logs_every_issue:
  assumes "distinct (map name (modes b))" and "0 < verbosity (log b)" and "build b = (lg, r)"
  shows "error_out lg = error_out (log b) @ concat (map (\<lambda>m.
             (if \<exists>m'\<in>set (modes b). next_mode_name m = Some (name m') then []
              else [next_mode_issue m])
             @ (if is_nested m \<and> \<not> (\<exists>p\<in>set (modes b). parent_mode_name m = Some (name p))
                then [parent_mode_issue m] else [])
             @ map (double_nested_issue m)
                 (filter (\<lambda>p. parent_mode_name m = Some (name p) \<and> is_nested p) (modes b)))
           (modes b))
       \<and> length (error_out lg) = length (error_out (log b))
           + length (filter (\<lambda>m. \<not> (\<exists>m'\<in>set (modes b). next_mode_name m = Some (name m')))
                       (modes b))
           + length (filter (\<lambda>m. is_nested m \<and> \<not> (\<exists>p\<in>set (modes b).
                                  parent_mode_name m = Some (name p) \<and> \<not> is_nested p))
                       (modes b))
       \<and> (r = Inl (ValueError ''Compilation stopped because of consistency errors. Check log.'')
            \<longleftrightarrow> length (error_out (log b)) < length (error_out lg))
       \<and> (\<forall>m\<in>set (modes b). \<not> (\<exists>m'\<in>set (modes b). next_mode_name m = Some (name m'))
            \<longrightarrow> next_mode_issue m \<in> set (error_out lg))
       \<and> (\<forall>m\<in>set (modes b).
            is_nested m \<and> \<not> (\<exists>p\<in>set (modes b). parent_mode_name m = Some (name p))
            \<longrightarrow> parent_mode_issue m \<in> set (error_out lg))
       \<and> (\<forall>m\<in>set (modes b). \<forall>p\<in>set (modes b).
            is_nested m \<and> parent_mode_name m = Some (name p) \<and> is_nested p
            \<longrightarrow> double_nested_issue m p \<in> set (error_out lg))"
proof -
  let ?ms = "modes b"
  let ?issues = "concat (map (mode_issues ?ms) ?ms)"
  have chk: "check_modes ?ms ?ms (False, log b)
      = (\<exists>m\<in>set ?ms. mode_issues ?ms m \<noteq> [], (log b)\<lparr>error_out := error_out (log b) @ ?issues\<rparr>)"
    using check_modes_issues [OF assms(2), of ?ms ?ms False] by simp
  have lg: "error_out lg = error_out (log b) @ ?issues"
    using build_log [of b] assms(3) chk by simp
  have r: "r = Inl (ValueError ''Compilation stopped because of consistency errors. Check log.'')
      \<longleftrightarrow> (\<exists>m\<in>set ?ms. mode_issues ?ms m \<noteq> [])"
    using build_consistency_error [of b] assms(3) chk by simp
  have 1: "length (error_out lg) = length (error_out (log b))
           + length (filter (\<lambda>m. \<not> (\<exists>m'\<in>set ?ms. next_mode_name m = Some (name m'))) ?ms)
           + length (filter (\<lambda>m. is_nested m \<and> \<not> (\<exists>p\<in>set ?ms.
                                  parent_mode_name m = Some (name p) \<and> \<not> is_nested p)) ?ms)"
    using concat_length_filters [of ?ms "mode_issues ?ms"
        "\<lambda>m. \<exists>m'\<in>set ?ms. next_mode_name m = Some (name m')"
        "\<lambda>m. is_nested m \<and> \<not> (\<exists>p\<in>set ?ms. parent_mode_name m = Some (name p) \<and> \<not> is_nested p)"]
      mode_issues_length [OF assms(1)]
    by (simp add: lg)
  have 2: "r = Inl (ValueError ''Compilation stopped because of consistency errors. Check log.'')
            \<longleftrightarrow> length (error_out (log b)) < length (error_out lg)"
    by (auto simp add: r lg)
  have mem: "\<And>m x. m \<in> set ?ms \<Longrightarrow> x \<in> set (mode_issues ?ms m) \<Longrightarrow> x \<in> set (error_out lg)"
    by (auto simp add: lg)
  have 3: "\<forall>m\<in>set ?ms. \<not> (\<exists>m'\<in>set ?ms. next_mode_name m = Some (name m'))
            \<longrightarrow> next_mode_issue m \<in> set (error_out lg)"
  proof (intro ballI impI)
    fix m assume m: "m \<in> set ?ms" and n: "\<not> (\<exists>m'\<in>set ?ms. next_mode_name m = Some (name m'))"
    from n obtain e where "get_mode ?ms (next_mode_name m) = Inl e"
      using get_mode_Inl_iff [of ?ms "next_mode_name m"] by blast
    then have "next_mode_issue m \<in> set (mode_issues ?ms m)"
      by (simp add: mode_issues_split)
    from mem [OF m this] show "next_mode_issue m \<in> set (error_out lg)" .
  qed
  have 4: "\<forall>m\<in>set ?ms.
            is_nested m \<and> \<not> (\<exists>p\<in>set ?ms. parent_mode_name m = Some (name p))
            \<longrightarrow> parent_mode_issue m \<in> set (error_out lg)"
  proof (intro ballI impI)
    fix m assume m: "m \<in> set ?ms"
      and n: "is_nested m \<and> \<not> (\<exists>p\<in>set ?ms. parent_mode_name m = Some (name p))"
    from n obtain e where "get_mode ?ms (parent_mode_name m) = Inl e"
      using get_mode_Inl_iff [of ?ms "parent_mode_name m"] by blast
    then have "parent_mode_issue m \<in> set (mode_issues ?ms m)"
      using n by (simp add: mode_issues_split)
    from mem [OF m this] show "parent_mode_issue m \<in> set (error_out lg)" .
  qed
  have 5: "\<forall>m\<in>set ?ms. \<forall>p\<in>set ?ms.
            is_nested m \<and> parent_mode_name m = Some (name p) \<and> is_nested p
            \<longrightarrow> double_nested_issue m p \<in> set (error_out lg)"
  proof (intro ballI impI)
    fix m p assume m: "m \<in> set ?ms" and p: "p \<in> set ?ms"
      and n: "is_nested m \<and> parent_mode_name m = Some (name p) \<and> is_nested p"
    have "get_mode ?ms (parent_mode_name m) = Inr p"
      using get_mode_distinct [OF assms(1) p] n by simp
    then have "double_nested_issue m p \<in> set (mode_issues ?ms m)"
      using n by (simp add: mode_issues_split)
    from mem [OF m this] show "double_nested_issue m p \<in> set (error_out lg)" .
  qed
  have 0: "error_out lg = error_out (log b) @ concat (map (\<lambda>m.
             (if \<exists>m'\<in>set ?ms. next_mode_name m = Some (name m') then []
              else [next_mode_issue m])
             @ (if is_nested m \<and> \<not> (\<exists>p\<in>set ?ms. parent_mode_name m = Some (name p))
                then [parent_mode_issue m] else [])
             @ map (double_nested_issue m)
                 (filter (\<lambda>p. parent_mode_name m = Some (name p) \<and> is_nested p) ?ms))
           ?ms)"
    by (simp only: lg mode_issues_explicit [OF assms(1), symmetric])
  from 0 1 2 3 4 5 show ?thesis by (intro conjI)
qed

theorem build_logs_every_issue_witness:
  "distinct (map name [orphan_mode, inner_mode, middle_mode, outer_mode])
   \<and> 0 < verbosity new_context
   \<and> build \<lparr>modes = [orphan_mode, inner_mode, middle_mode, outer_mode], log = new_context\<rparr>
       = (new_context\<lparr>error_out := [''Next mode Z for mode A does not exist.'',
                                       ''Double nested modes detected: B in C in D.'']\<rparr>,
          Inl (ValueError ''Compilation stopped because of consistency errors. Check log.''))
   \<and> error_out (new_context\<lparr>error_out := [''Next mode Z for mode A does not exist.'',
                                       ''Double nested modes detected: B in C in D.'']\<rparr>)
       = error_out new_context
           @ [next_mode_issue orphan_mode, double_nested_issue inner_mode middle_mode]
   \<and> length (error_out (new_context\<lparr>error_out := [''Next mode Z for mode A does not exist.'',
                                       ''Double nested modes detected: B in C in D.'']\<rparr>))
       = length (error_out new_context) + 1 + 1
   \<and> next_mode_issue orphan_mode = ''Next mode Z for mode A does not exist.''
   \<and> double_nested_issue inner_mode middle_mode = ''Double nested modes detected: B in C in D.''"
proof -
  let ?ms = "[orphan_mode, inner_mode, middle_mode, outer_mode]"
  let ?b = "\<lparr>modes = ?ms, log = new_context\<rparr>"
  let ?lg = "new_context\<lparr>error_out := [''Next mode Z for mode A does not exist.'',
                                       ''Double nested modes detected: B in C in D.'']\<rparr>"
  let ?g = "\<lambda>m. (if \<exists>m'\<in>set (modes ?b). next_mode_name m = Some (name m') then []
              else [next_mode_issue m])
             @ (if is_nested m \<and> \<not> (\<exists>p\<in>set (modes ?b). parent_mode_name m = Some (name p))
                then [parent_mode_issue m] else [])
             @ map (double_nested_issue m)
                 (filter (\<lambda>p. parent_mode_name m = Some (name p) \<and> is_nested p) (modes ?b))"
  have a: "distinct (map name (modes ?b))" by code_simp
  have a': "distinct (map name ?ms)" by code_simp
  have v: "0 < verbosity (log ?b)" by (simp add: new_context_def)
  have v': "0 < verbosity new_context" by (simp add: new_context_def)
  have bld: "build ?b
      = (?lg, Inl (ValueError ''Compilation stopped because of consistency errors. Check log.''))"
    by code_simp
  note t = build_logs_every_issue [OF a v bld]
  have nm: "name orphan_mode = ''A''" "name inner_mode = ''B''" "name middle_mode = ''C''"
    "name outer_mode = ''D''"
    "next_mode_name orphan_mode = Some ''Z''" "next_mode_name inner_mode = Some ''B''"
    "next_mode_name middle_mode = Some ''C''" "next_mode_name outer_mode = Some ''D''"
    "parent_mode_name orphan_mode = None" "parent_mode_name inner_mode = Some ''C''"
    "parent_mode_name middle_mode = Some ''D''" "parent_mode_name outer_mode = None"
    "\<not> is_nested orphan_mode" "is_nested inner_mode" "is_nested middle_mode"
    "\<not> is_nested outer_mode"
    by (simp_all add: orphan_mode_def inner_mode_def middle_mode_def outer_mode_def
        is_nested_def parent_mode_name_def)
  have g1: "?g orphan_mode = [next_mode_issue orphan_mode]" by (simp add: nm)
  have g2: "?g inner_mode = [double_nested_issue inner_mode middle_mode]" by (simp add: nm)
  have g3: "?g middle_mode = []" by (simp add: nm)
  have g4: "?g outer_mode = []" by (simp add: nm)
  from t have "error_out ?lg = error_out (log ?b) @ concat (map ?g (modes ?b))"
    by (elim conjE)
  then have "error_out ?lg = error_out (log ?b)
      @ concat [?g orphan_mode, ?g inner_mode, ?g middle_mode, ?g outer_mode]"
    by simp
  then have ord: "error_out ?lg = error_out new_context
      @ [next_mode_issue orphan_mode, double_nested_issue inner_mode middle_mode]"
    by (simp only: g1 g2 g3 g4) simp
  have f1: "filter (\<lambda>m. \<not> (\<exists>m'\<in>set (modes ?b). next_mode_name m = Some (name m'))) (modes ?b)
      = [orphan_mode]"
    by (simp add: nm)
  have f2: "filter (\<lambda>m. is_nested m \<and> \<not> (\<exists>p\<in>set (modes ?b).
                 parent_mode_name m = Some (name p) \<and> \<not> is_nested p)) (modes ?b)
      = [inner_mode]"
    by (simp add: nm)
  from t
  have "length (error_out ?lg) = length (error_out (log ?b))
           + length (filter (\<lambda>m. \<not> (\<exists>m'\<in>set (modes ?b). next_mode_name m = Some (name m')))
                       (modes ?b))
           + length (filter (\<lambda>m. is_nested m \<and> \<not> (\<exists>p\<in>set (modes ?b).
                                  parent_mode_name m = Some (name p) \<and> \<not> is_nested p))
                       (modes ?b))"
    by (elim conjE)
  then have n: "length (error_out ?lg) = length (error_out new_context) + 1 + 1"
    by (simp only: f1 f2) simp
  have i1: "next_mode_issue orphan_mode = ''Next mode Z for mode A does not exist.''"
    by code_simp
  have i2: "double_nested_issue inner_mode middle_mode
      = ''Double nested modes detected: B in C in D.''"
    by code_simp
  from a' v' bld ord n i1 i2 show ?thesis by (intro conjI)
qed

section \<open>Further properties of the encoders\<close>

text \<open>
  With \<^verbatim>\<open>signed=True\<close> the two halves of an unsigned 64-bit value are packed as signed
  32-bit integers: the result is the unsigned one when both halves are below \<open>2^31\<close>, and
  \<^verbatim>\<open>struct.error\<close> otherwise.
\<close>

lemma struct_pack_signed:
  "0 \<le> n \<Longrightarrow> struct_pack e True n = (if n < 2 ^ 31 then struct_pack e False n else Inl StructError)"
  by (simp add: struct_pack_def)

lemma int_to_byte_list_wide_signed:
  assumes "0 \<le> v" and "v < 2 ^ 64"
  shows "int_to_byte_list e v 8 True
     = (if v div 2 ^ 32 < 2 ^ 31 \<and> v mod 2 ^ 32 < 2 ^ 31 then int_to_byte_list e v 8 False
        else Inl StructError)"
proof -
  have "v div 4294967296 < 4294967296" using assms by simp
  then have hm: "v div 2 ^ 32 mod 2 ^ 32 = v div 2 ^ 32" using assms by simp
  have h0: "0 \<le> v div 2 ^ 32" and l0: "0 \<le> v mod 2 ^ 32" using assms by simp_all
  have hu: "\<exists>hb. struct_pack e False (v div 2 ^ 32) = Inr hb"
    using \<open>v div 4294967296 < 4294967296\<close> h0 by (simp add: struct_pack_def)
  have lu: "\<exists>lb. struct_pack e False (v mod 2 ^ 32) = Inr lb"
    using l0 by (simp add: struct_pack_def)
  from hu lu show ?thesis
    by (simp only: int_to_byte_list_def and_low32 and_high32 Let_def hm
          struct_pack_signed [OF h0] struct_pack_signed [OF l0])
       (auto split: sum.splits)
qed

text \<open>
  Whatever else a program contains, a mode without a next mode makes \<^verbatim>\<open>build\<close> raise the
  consistency error.
\<close>

lemma build_without_next_mode:
  assumes "m \<in> set (modes b)" and "next_mode_name m = None"
  shows "snd (build b)
     = Inl (ValueError ''Compilation stopped because of consistency errors. Check log.'')"
proof -
  have flag: "\<And>ms st. fst st \<Longrightarrow> fst (check_modes (modes b) ms st)"
  proof -
    fix ms st show "fst st \<Longrightarrow> fst (check_modes (modes b) ms st)"
    proof (induction ms arbitrary: st)
      case Nil
      then show ?case by simp
    next
      case (Cons a ms)
      have "fst (check_mode (modes b) a st)"
        using Cons.prems
        by (cases "get_mode (modes b) (next_mode_name a)";
            cases "get_mode (modes b) (parent_mode_name a)")
           (simp_all add: check_mode_def Let_def)
      from Cons.IH [OF this] show ?case by simp
    qed
  qed
  have none: "\<exists>e. get_mode (modes b) None = Inl e"
    using get_mode_Inl_iff [of "modes b" None] by simp
  have one: "\<And>st. fst (check_mode (modes b) m st)"
  proof -
    fix st
    from none obtain e where "get_mode (modes b) None = Inl e" ..
    then show "fst (check_mode (modes b) m st)"
      using assms(2)
      by (cases "get_mode (modes b) (parent_mode_name m)") (simp_all add: check_mode_def Let_def)
  qed
  have "\<And>ms st. m \<in> set ms \<Longrightarrow> fst (check_modes (modes b) ms st)"
  proof -
    fix ms st show "m \<in> set ms \<Longrightarrow> fst (check_modes (modes b) ms st)"
    proof (induction ms arbitrary: st)
      case Nil
      then show ?case by simp
    next
      case (Cons a ms)
      show ?case
      proof (cases "a = m")
        case True
        then show ?thesis using flag [OF one] by simp
      next
        case False
        with Cons show ?thesis by simp
      qed
    qed
  qed
  from this [OF assms(1)] show ?thesis by (simp add: build_consistency_error)
qed

text \<open>
  Without a parent, the constructor of Mode fails exactly for a loop count above 65535; every
  other loop count, negative ones included, is stored as it is.
\<close>

lemma Mode_init_plain:
  "Mode_init nm loops nxt None None
     = (if loops > 65535
        then Inl (ValueError (''n_loops ('' @ str_int loops @ '') is out of range [0...65535].''))
        else Inr \<lparr>name = nm, n_loops = loops, next_mode_name = nxt, nesting = None, states = []\<rparr>)"
proof -
  have "str_int 65535 = ''65535''" by code_simp
  then show ?thesis by (simp add: Mode_init_def max_n_loops_def truthy_name_def)
qed

text \<open>
  For a state with a valid hold time, \<^verbatim>\<open>State.format_code\<close> recovers the hold time from the
  state's word, and its pin vector is the 32 pins from pin 7 on, not the pins 0 to 63.
\<close>

lemma State_format_time_get_code:
  assumes "0 \<le> hold_time s" and "hold_time s \<le> max_hold_time"
  shows "State_format_time (State_get_code s) = hold_time s"
proof -
  have m: "(0xFFFFFF::int) = mask 24" by (simp add: mask_eq_exp_minus_1)
  have "hold_time s < 2 ^ 24" using assms(2) by (simp add: max_hold_time_def)
  then have t: "take_bit 24 (hold_time s) = hold_time s"
    using assms(1) by (simp add: take_bit_int_eq_self)
  have "(push_bit 24 (data s) OR hold_time s) AND mask 24 = take_bit 24 (hold_time s)"
    by (rule bit_eqI) (auto simp add: bit_simps)
  then show ?thesis by (simp only: State_format_time_def State_get_code_def m t)
qed

lemma State_format_data_get_code:
  assumes "0 \<le> hold_time s" and "hold_time s \<le> max_hold_time"
  shows "State_format_data (State_get_code s) = take_bit 32 (drop_bit 7 (data s))"
proof -
  have m: "(0x7FFFFFFF80000000::int) = push_bit 31 (mask 32)"
    by (simp add: mask_eq_exp_minus_1 push_bit_eq_mult)
  have "hold_time s < 2 ^ 24" using assms(2) by (simp add: max_hold_time_def)
  then have t: "take_bit 24 (hold_time s) = hold_time s"
    using assms(1) by (simp add: take_bit_int_eq_self)
  have b: "\<And>n. bit (hold_time s) n \<Longrightarrow> n < 24"
    using t by (metis bit_take_bit_iff)
  have "drop_bit 31 ((push_bit 24 (data s) OR hold_time s) AND push_bit 31 (mask 32))
      = take_bit 32 (drop_bit 7 (data s))"
    by (rule bit_eqI) (auto simp add: bit_simps dest: b)
  then show ?thesis by (simp only: State_format_data_def State_get_code_def m)
qed

text \<open>
  Every header word has bit 95 set, so \<^verbatim>\<open>c >> 63\<close> is at least \<open>2^32\<close>: the test of
  \<^verbatim>\<open>Program.as_str\<close> sends no header word to the mode formatter.
\<close>

lemma bit_tag:
  "bit (39614081257132168796771975168::int) n \<longleftrightarrow> n = 95"
proof -
  have "(39614081257132168796771975168::int) = push_bit 95 1" by simp
  then show ?thesis by (simp only: bit_simps) auto
qed

lemma Mode_get_code_bit95:
  assumes "Mode_get_code m cache = Inr c"
  shows "bit c 95"
  using assms
  by (auto simp add: Mode_get_code_def Let_def bit_or_iff bit_tag split: sum.splits)

lemma Mode_get_code_not_rendered_as_mode:
  assumes "Mode_get_code m cache = Inr c"
  shows "drop_bit 63 c \<noteq> 1"
proof
  assume "drop_bit 63 c = 1"
  then have "bit (drop_bit 63 c) 32 = bit (1::int) 32" by simp
  then show False using Mode_get_code_bit95 [OF assms] by (simp add: bit_simps)
qed

text \<open>
  The fields that \<^verbatim>\<open>Mode.format_code\<close> extracts from a header word are the values that
  \<^verbatim>\<open>Mode.get_code\<close> encoded, for a mode whose counters are in range and an address cache
  with 16-bit addresses; the tag byte of the word is \<open>0x80\<close>.
\<close>

lemma bit_bound:
  assumes "0 \<le> (x::int)" and "x < 2 ^ k" and "bit x n"
  shows "n < k"
proof -
  have "take_bit k x = x" using assms(1,2) by (simp add: take_bit_int_eq_self)
  then show ?thesis using assms(3) by (metis bit_take_bit_iff)
qed

lemma bit_128: "bit (128::int) n \<longleftrightarrow> n = 7"
proof -
  have "(128::int) = push_bit 7 1" by simp
  then show ?thesis by (simp only: bit_simps) auto
qed

lemma header_fields:
  fixes pa na nf nl lo ns tg :: int
  assumes pa: "0 \<le> pa" "pa < 2 ^ 16" and na: "0 \<le> na" "na < 2 ^ 16"
    and nf: "0 \<le> nf" "nf < 2 ^ 8" and nl: "0 \<le> nl" "nl < 2 ^ 16"
    and lo: "0 \<le> lo" "lo < 2 ^ 16" and ns: "0 \<le> ns" "ns < 2 ^ 16"
    and tg: "\<And>n. bit tg n \<longleftrightarrow> n = 95"
    and c: "c = pa OR push_bit 16 na OR push_bit 32 nf OR push_bit 40 nl
                OR push_bit 56 lo OR push_bit 72 ns OR tg"
  shows "c AND 0xFFFF = pa" and "drop_bit 16 c AND 0xFFFF = na"
    and "drop_bit 32 c AND 0xFF = nf" and "drop_bit 40 c AND 0xFFFF = nl"
    and "drop_bit 56 c AND 0xFFFF = lo" and "drop_bit 72 c AND 0xFFFF = ns"
    and "drop_bit 88 c = 0x80"
proof -
  note b = bit_bound [OF pa] bit_bound [OF na] bit_bound [OF nf] bit_bound [OF nl]
    bit_bound [OF lo] bit_bound [OF ns]
  have m16: "(0xFFFF::int) = mask 16" and m8: "(0xFF::int) = mask 8"
    by (simp_all add: mask_eq_exp_minus_1)
  show "c AND 0xFFFF = pa"
    unfolding c m16 by (rule bit_eqI) (auto simp add: bit_simps tg dest: b)
  show "drop_bit 16 c AND 0xFFFF = na"
    unfolding c m16 by (rule bit_eqI) (auto simp add: bit_simps tg dest: b)
  show "drop_bit 32 c AND 0xFF = nf"
    unfolding c m8 by (rule bit_eqI) (auto simp add: bit_simps tg dest: b)
  show "drop_bit 40 c AND 0xFFFF = nl"
    unfolding c m16 by (rule bit_eqI) (auto simp add: bit_simps tg dest: b)
  show "drop_bit 56 c AND 0xFFFF = lo"
    unfolding c m16 by (rule bit_eqI) (auto simp add: bit_simps tg dest: b)
  show "drop_bit 72 c AND 0xFFFF = ns"
    unfolding c m16 by (rule bit_eqI) (auto simp add: bit_simps tg dest: b)
  show "drop_bit 88 c = 0x80"
    unfolding c by (rule bit_eqI) (auto simp add: bit_simps tg bit_128 dest: b)
qed


lemma Mode_get_code_fields:
  assumes code: "Mode_get_code m cache = Inr c"
    and loops: "0 \<le> n_loops m" "n_loops m \<le> max_n_loops"
    and nested: "\<forall>p nl. nesting m = Some (p, nl) \<longrightarrow> 0 \<le> nl \<and> nl \<le> max_n_loops_nested"
    and count: "length (states m) \<le> max_n_states"
    and cache: "\<forall>(k, v)\<in>set cache. 0 \<le> v \<and> v < 2 ^ 16"
  shows "drop_bit 88 c = 0x80
       \<and> drop_bit 72 c AND 0xFFFF = int (length (states m))
       \<and> drop_bit 56 c AND 0xFFFF = n_loops m
       \<and> drop_bit 40 c AND 0xFFFF = (case nesting m of None \<Rightarrow> 0 | Some (p, nl) \<Rightarrow> nl)
       \<and> drop_bit 32 c AND 0xFF = (if is_nested m then 1 else 0)
       \<and> Inr (drop_bit 16 c AND 0xFFFF)
           = (if truthy_name (next_mode_name m)
              then dict_get cache (str_opt (next_mode_name m)) else Inr invalid_mode)
       \<and> Inr (c AND 0xFFFF)
           = (case nesting m of None \<Rightarrow> Inr invalid_mode | Some (p, nl) \<Rightarrow> dict_get cache p)"
proof -
  let ?nl = "case nesting m of None \<Rightarrow> 0 | Some (p, nl) \<Rightarrow> nl"
  let ?nf = "if is_nested m then 1 else 0 :: int"
  from code obtain na pa where
    na: "(if truthy_name (next_mode_name m)
          then dict_get cache (str_opt (next_mode_name m)) else Inr invalid_mode) = Inr na"
    and pa: "(case nesting m of None \<Rightarrow> Inr invalid_mode | Some (p, nl) \<Rightarrow> dict_get cache p)
          = Inr pa"
    and c: "c = pa OR push_bit 16 na OR push_bit 32 ?nf OR push_bit 40 ?nl
                OR push_bit 56 (n_loops m) OR push_bit 72 (int (length (states m)))
                OR 39614081257132168796771975168"
    by (auto simp add: Mode_get_code_def Let_def split: sum.splits)
  have look: "\<And>k v. dict_get cache k = Inr v \<Longrightarrow> 0 \<le> v \<and> v < 2 ^ 16"
  proof -
    fix k v assume "dict_get cache k = Inr v"
    then have "map_of cache k = Some v" by (simp add: dict_get_def split: option.splits)
    then have "(k, v) \<in> set cache" by (rule map_of_SomeD)
    with cache show "0 \<le> v \<and> v < 2 ^ 16" by auto
  qed
  have nab: "0 \<le> na" "na < 2 ^ 16"
    using na look by (auto simp add: invalid_mode_def split: if_splits)
  have pab: "0 \<le> pa" "pa < 2 ^ 16"
    using pa look by (auto simp add: invalid_mode_def split: option.splits)
  have nfb: "0 \<le> ?nf" "?nf < 2 ^ 8" by simp_all
  have nlb: "0 \<le> ?nl" "?nl < 2 ^ 16"
    using nested by (auto simp add: max_n_loops_nested_def split: option.splits)
  have lob: "0 \<le> n_loops m" "n_loops m < 2 ^ 16"
    using loops by (simp_all add: max_n_loops_def)
  have nsb: "0 \<le> int (length (states m))" "int (length (states m)) < 2 ^ 16"
    using count by (simp_all add: max_n_states_def)
  note f = header_fields [OF pab nab nfb nlb lob nsb bit_tag c]
  show ?thesis
    by (simp only: f na pa simp_thms)
qed

end
